theory Spec2Isabelle
  imports Complex_Main "HOL-Library.Char_ord" "HOL-Library.List_Lexorder"
begin

section \<open>Data model of the notebook\<close>

text \<open>
  The notebook \<^verbatim>\<open>opendataprojects/analyse.ipynb\<close> reads CSV rows with
  \<^verbatim>\<open>csv.DictReader\<close>, cleans each row with \<^verbatim>\<open>clean\<close>, collects the kept rows in
  the list \<^verbatim>\<open>data\<close> and computes a few summary values over that list.

  A field value is a Python object: a string as read from the file, an integer after
  coercion, or \<^verbatim>\<open>None\<close> (what the reader stores for the missing fields of a short
  line). Strings are lists of characters with code points below 256.
\<close>

datatype pyval = StrV string | IntV int | NoneV

text \<open>The exceptions that the modelled cells can raise; \<open>KeyError\<close> carries the key.\<close>

datatype error =
  KeyError string | IndexError | ValueError | TypeError | ZeroDivisionError | OverflowError

text \<open>
  A row is a Python \<^verbatim>\<open>dict\<close> from column names to values. It is kept as the list of
  its items in iteration order; a dictionary has every key once, which is the predicate
  \<open>wf_row\<close>. Rows are objects on the heap: the store maps the address of each
  dictionary to its present contents, and a variable that holds a row holds its address.
\<close>

type_synonym row = "(string \<times> pyval) list"

type_synonym addr = nat

type_synonym store = "addr \<Rightarrow> row"

definition wf_row :: "row \<Rightarrow> bool" where
  "wf_row r = distinct (map fst r)"

text \<open>\<^verbatim>\<open>row[key]\<close>: the value stored under the key, or \<^verbatim>\<open>KeyError\<close>.\<close>

fun getitem :: "row \<Rightarrow> string \<Rightarrow> error + pyval" where
  "getitem [] key = Inl (KeyError key)"
| "getitem ((k, v) # r) key = (if k = key then Inr v else getitem r key)"

text \<open>
  \<^verbatim>\<open>row[key] = value\<close>: an existing key keeps its place and gets the new value, a new
  key is added at the end.
\<close>

fun setitem :: "row \<Rightarrow> string \<Rightarrow> pyval \<Rightarrow> row" where
  "setitem [] key value = [(key, value)]"
| "setitem ((k, v) # r) key value =
     (if k = key then (k, value) # r else (k, v) # setitem r key value)"

subsection \<open>The builtin \<^verbatim>\<open>int\<close>\<close>

text \<open>
  \<^verbatim>\<open>int(value)\<close> in Python 3.5 (the kernel recorded in the notebook): an integer is
  returned as it is; a string is stripped of surrounding whitespace and must then be an
  optional sign followed by one or more decimal digits, otherwise \<^verbatim>\<open>ValueError\<close> is
  raised; \<^verbatim>\<open>None\<close> raises \<^verbatim>\<open>TypeError\<close>. The whitespace that \<^verbatim>\<open>int\<close>
  strips is the ASCII one (tab to carriage return, and the space) and, of the code points
  from 128 to 255, the next-line and the no-break space characters.
\<close>

definition is_space :: "char \<Rightarrow> bool" where
  "is_space c = (c \<in> set [CHR 0x09, CHR 0x0A, CHR 0x0B, CHR 0x0C, CHR 0x0D, CHR 0x20,
     CHR 0x85, CHR 0xA0])"

definition digit_val :: "char \<Rightarrow> nat option" where
  "digit_val c =
     (let n = (of_char c :: nat) in if 48 \<le> n \<and> n \<le> 57 then Some (n - 48) else None)"

fun digits_val :: "nat \<Rightarrow> string \<Rightarrow> nat option" where
  "digits_val acc [] = Some acc"
| "digits_val acc (c # cs) =
     (case digit_val c of None \<Rightarrow> None | Some d \<Rightarrow> digits_val (10 * acc + d) cs)"

definition strip :: "string \<Rightarrow> string" where
  "strip s = rev (dropWhile is_space (rev (dropWhile is_space s)))"

fun split_sign :: "string \<Rightarrow> bool \<times> string" where
  "split_sign [] = (False, [])"
| "split_sign (c # cs) =
     (if c = CHR ''-'' then (True, cs) else if c = CHR ''+'' then (False, cs)
      else (False, c # cs))"

definition int_of_str :: "string \<Rightarrow> error + int" where
  "int_of_str s =
     (case split_sign (strip s) of
        (neg, body) \<Rightarrow>
          if body = [] then Inl ValueError
          else (case digits_val 0 body of
                  None \<Rightarrow> Inl ValueError
                | Some n \<Rightarrow> Inr (if neg then - int n else int n)))"

fun py_int :: "pyval \<Rightarrow> error + int" where
  "py_int (IntV n) = Inr n"
| "py_int (StrV s) = int_of_str s"
| "py_int NoneV = Inl TypeError"

section \<open>The row cleaner\<close>

text \<open>
  \<^verbatim>\<open>
  def clean(row):
      if row['Location/Agglomeration'] == 'Major sources (outside agglomerations)':
          row = None
      else:
          for key, value in row.items():
              if value == 'n/a':
                  row[key] = 0
              try:
                  row[key] = int(value)
              except ValueError as e:
                  pass
      return row
  \<close>
  The function works on the dictionary it is given: \<^verbatim>\<open>row[key] = ...\<close> writes into the
  caller's object. The model takes the store and the address of the row and returns the
  new store with the returned reference (\<open>None\<close> for Python's \<^verbatim>\<open>None\<close>), or the
  exception that escapes.
\<close>

definition location_key :: string where
  "location_key = ''Location/Agglomeration''"

definition major_sources :: string where
  "major_sources = ''Major sources (outside agglomerations)''"

text \<open>
  One pass of the loop body for the item \<open>(key, value)\<close>. The name \<open>value\<close> is bound
  by the \<^verbatim>\<open>for\<close> statement, so \<^verbatim>\<open>int(value)\<close> sees the value read from the
  dictionary, not the \<open>0\<close> just stored. Only \<^verbatim>\<open>ValueError\<close> is caught.
\<close>

definition clean_body :: "addr \<Rightarrow> string \<Rightarrow> pyval \<Rightarrow> store \<Rightarrow> error + store" where
  "clean_body a key value h =
     (let h1 = (if value = StrV ''n/a'' then h(a := setitem (h a) key (IntV 0)) else h)
      in case py_int value of
           Inr n \<Rightarrow> Inr (h1(a := setitem (h1 a) key (IntV n)))
         | Inl e \<Rightarrow> (if e = ValueError then Inr h1 else Inl e))"

text \<open>
  The \<^verbatim>\<open>for\<close> loop over \<^verbatim>\<open>row.items()\<close>: the view is live, so the item at each
  position is read from the dictionary as it is when the loop gets there. Assignments to
  existing keys do not change the size or the order of the dictionary.
\<close>

fun clean_loop :: "addr \<Rightarrow> nat list \<Rightarrow> store \<Rightarrow> error + store" where
  "clean_loop a [] h = Inr h"
| "clean_loop a (i # ps) h =
     (case h a ! i of
        (key, value) \<Rightarrow>
          (case clean_body a key value h of
             Inl e \<Rightarrow> Inl e
           | Inr h' \<Rightarrow> clean_loop a ps h'))"

definition clean :: "store \<Rightarrow> addr \<Rightarrow> error + (store \<times> addr option)" where
  "clean h a =
     (case getitem (h a) location_key of
        Inl e \<Rightarrow> Inl e
      | Inr loc \<Rightarrow>
          if loc = StrV major_sources then Inr (h, None)
          else (case clean_loop a [0..<length (h a)] h of
                  Inl e \<Rightarrow> Inl e
                | Inr h' \<Rightarrow> Inr (h', Some a)))"

text \<open>
  The same computation seen from the dictionary alone: what the loop body and the loop
  do to the contents of the row. The lemmas \<open>clean_body_row\<close>, \<open>clean_loop_row\<close>
  and \<open>clean_row\<close> below show that \<open>clean\<close> writes exactly these contents at the
  address of the row.
\<close>

definition row_body :: "string \<Rightarrow> pyval \<Rightarrow> row \<Rightarrow> error + row" where
  "row_body key value r =
     (let r1 = (if value = StrV ''n/a'' then setitem r key (IntV 0) else r)
      in case py_int value of
           Inr n \<Rightarrow> Inr (setitem r1 key (IntV n))
         | Inl e \<Rightarrow> (if e = ValueError then Inr r1 else Inl e))"

fun row_loop :: "nat list \<Rightarrow> row \<Rightarrow> error + row" where
  "row_loop [] r = Inr r"
| "row_loop (i # ps) r =
     (case r ! i of
        (key, value) \<Rightarrow>
          (case row_body key value r of
             Inl e \<Rightarrow> Inl e
           | Inr r' \<Rightarrow> row_loop ps r'))"

text \<open>The value that a pass of the loop body leaves under the key of a field.\<close>

definition clean_value :: "pyval \<Rightarrow> pyval" where
  "clean_value v =
     (case py_int v of
        Inr n \<Rightarrow> IntV n
      | Inl e \<Rightarrow> (if v = StrV ''n/a'' then IntV 0 else v))"

definition clean_item :: "string \<times> pyval \<Rightarrow> string \<times> pyval" where
  "clean_item kv = (fst kv, clean_value (snd kv))"

text \<open>A raw record: every value is a string, as the reader delivers a complete line.\<close>

fun is_str :: "pyval \<Rightarrow> bool" where
  "is_str (StrV s) = True"
| "is_str v = False"

definition raw_row :: "row \<Rightarrow> bool" where
  "raw_row r = list_all (\<lambda>kv. is_str (snd kv)) r"

text \<open>
  An already clean record: every value is an integer, or a string that is neither the
  marker \<^verbatim>\<open>'n/a'\<close> nor accepted by \<^verbatim>\<open>int\<close>.
\<close>

fun clean_val :: "pyval \<Rightarrow> bool" where
  "clean_val (IntV n) = True"
| "clean_val (StrV s) = (s \<noteq> ''n/a'' \<and> int_of_str s = Inl ValueError)"
| "clean_val NoneV = False"

definition already_clean :: "row \<Rightarrow> bool" where
  "already_clean r = list_all (\<lambda>kv. clean_val (snd kv)) r"

section \<open>The dataset builder\<close>

text \<open>
  \<^verbatim>\<open>
  data = []

  for row in reader:
      row = clean(row)
      if row:
          data.append(row)
  \<close>
  The reader yields one new dictionary for each line; \<open>reader\<close> is the list of their
  addresses in the order in which they are yielded. \<^verbatim>\<open>if row\<close> tests the truth value
  of what \<^verbatim>\<open>clean\<close> returned: \<^verbatim>\<open>None\<close> and the empty dictionary are false.
\<close>

fun truthy :: "store \<Rightarrow> addr option \<Rightarrow> bool" where
  "truthy h None = False"
| "truthy h (Some a) = (h a \<noteq> [])"

fun build_loop :: "addr list \<Rightarrow> store \<Rightarrow> addr list \<Rightarrow> error + (store \<times> addr list)" where
  "build_loop [] h data = Inr (h, data)"
| "build_loop (a # reader) h data =
     (case clean h a of
        Inl e \<Rightarrow> Inl e
      | Inr (h', row) \<Rightarrow>
          if truthy h' row then build_loop reader h' (data @ [the row])
          else build_loop reader h' data)"

definition build :: "store \<Rightarrow> addr list \<Rightarrow> error + (store \<times> addr list)" where
  "build h reader = build_loop reader h []"

text \<open>
  The test of the \<^verbatim>\<open>if\<close> statement of \<^verbatim>\<open>clean\<close>, read on the contents of a row:
  the row is kept unless its location is the excluded one.
\<close>

definition kept :: "row \<Rightarrow> bool" where
  "kept r = (getitem r location_key \<noteq> Inr (StrV major_sources))"

section \<open>The queries\<close>

subsection \<open>The builtins \<^verbatim>\<open>max\<close> and \<^verbatim>\<open>min\<close> with a key\<close>

text \<open>
  Python 3 orders integers by value and strings by code points, and raises
  \<^verbatim>\<open>TypeError\<close> when it is asked to order values of different types, or \<^verbatim>\<open>None\<close>.
\<close>

fun py_gt :: "pyval \<Rightarrow> pyval \<Rightarrow> error + bool" where
  "py_gt (IntV x) (IntV y) = Inr (x > y)"
| "py_gt (StrV s) (StrV t) = Inr (s > t)"
| "py_gt v w = Inl TypeError"

fun py_lt :: "pyval \<Rightarrow> pyval \<Rightarrow> error + bool" where
  "py_lt (IntV x) (IntV y) = Inr (x < y)"
| "py_lt (StrV s) (StrV t) = Inr (s < t)"
| "py_lt v w = Inl TypeError"

text \<open>
  \<^verbatim>\<open>max(data, key=operator.itemgetter(k))\<close> walks the list once. It keeps the first
  item and its key, and replaces them by a later item only when the key of that item
  compares strictly greater (\<^verbatim>\<open>min\<close>: strictly less). An empty list raises
  \<^verbatim>\<open>ValueError\<close>. The parameter \<open>better\<close> is the comparison.
\<close>

fun extremum_loop ::
  "(pyval \<Rightarrow> pyval \<Rightarrow> error + bool) \<Rightarrow> store \<Rightarrow> string \<Rightarrow> addr \<Rightarrow> pyval \<Rightarrow> addr list
     \<Rightarrow> error + addr" where
  "extremum_loop better h k best bestval [] = Inr best"
| "extremum_loop better h k best bestval (item # rest) =
     (case getitem (h item) k of
        Inl e \<Rightarrow> Inl e
      | Inr val \<Rightarrow>
          (case better val bestval of
             Inl e \<Rightarrow> Inl e
           | Inr c \<Rightarrow>
               if c then extremum_loop better h k item val rest
               else extremum_loop better h k best bestval rest))"

definition extremum ::
  "(pyval \<Rightarrow> pyval \<Rightarrow> error + bool) \<Rightarrow> store \<Rightarrow> string \<Rightarrow> addr list \<Rightarrow> error + addr" where
  "extremum better h k xs =
     (case xs of
        [] \<Rightarrow> Inl ValueError
      | item # rest \<Rightarrow>
          (case getitem (h item) k of
             Inl e \<Rightarrow> Inl e
           | Inr val \<Rightarrow> extremum_loop better h k item val rest))"

definition py_max :: "store \<Rightarrow> string \<Rightarrow> addr list \<Rightarrow> error + addr" where
  "py_max = extremum py_gt"

definition py_min :: "store \<Rightarrow> string \<Rightarrow> addr list \<Rightarrow> error + addr" where
  "py_min = extremum py_lt"

subsection \<open>The query cell\<close>

text \<open>
  \<^verbatim>\<open>
  columns = len(data[0].keys())
  rows = len(data)
  most_populated = max(data, key=operator.itemgetter('AgglomerationPopulation'))
  least_populated = min(data, key=operator.itemgetter('AgglomerationPopulation'))
  \<close>
  The cell binds four names; the record \<open>queries\<close> holds their values. The statements
  run in this order, and the first exception ends the cell: \<^verbatim>\<open>data[0]\<close> raises
  \<^verbatim>\<open>IndexError\<close> on an empty list. The two selected records are references into
  \<^verbatim>\<open>data\<close>. The calls that print them are not modelled.
\<close>

definition population_key :: string where
  "population_key = ''AgglomerationPopulation''"

record queries =
  columns :: nat
  rows :: nat
  most_populated :: addr
  least_populated :: addr

definition query_cell :: "store \<Rightarrow> addr list \<Rightarrow> error + queries" where
  "query_cell h data =
     (case data of
        [] \<Rightarrow> Inl IndexError
      | first # others \<Rightarrow>
          (case py_max h population_key data of
             Inl e \<Rightarrow> Inl e
           | Inr mp \<Rightarrow>
               (case py_min h population_key data of
                  Inl e \<Rightarrow> Inl e
                | Inr lp \<Rightarrow>
                    Inr \<lparr>columns = length (h first), rows = length data,
                         most_populated = mp, least_populated = lp\<rparr>)))"

section \<open>The exposure figures\<close>

subsection \<open>Addition and the builtin \<^verbatim>\<open>sum\<close>\<close>

text \<open>
  \<^verbatim>\<open>+\<close> adds two integers and joins two strings; every other pairing of the modelled
  values raises \<^verbatim>\<open>TypeError\<close>. \<^verbatim>\<open>sum(xs)\<close> adds the items to the integer 0 from
  left to right.
\<close>

fun py_add :: "pyval \<Rightarrow> pyval \<Rightarrow> error + pyval" where
  "py_add (IntV x) (IntV y) = Inr (IntV (x + y))"
| "py_add (StrV s) (StrV t) = Inr (StrV (s @ t))"
| "py_add v w = Inl TypeError"

fun sum_from :: "pyval \<Rightarrow> pyval list \<Rightarrow> error + pyval" where
  "sum_from acc [] = Inr acc"
| "sum_from acc (v # vs) =
     (case py_add acc v of Inl e \<Rightarrow> Inl e | Inr acc' \<Rightarrow> sum_from acc' vs)"

definition py_sum :: "pyval list \<Rightarrow> error + pyval" where
  "py_sum vs = sum_from (IntV 0) vs"

subsection \<open>Floating point\<close>

text \<open>
  A Python \<^verbatim>\<open>float\<close> is an IEEE 754 binary64 number. \<open>Finite s m e\<close> is the number
  with sign \<open>s\<close> (true for minus) and magnitude \<open>m * 2 ^ e\<close>, where \<open>m = 0\<close> gives
  the two zeros; \<open>Infinite s\<close> is an infinity. Not-a-number does not arise in the
  expressions modelled here.
\<close>

datatype pyfloat = Finite bool nat int | Infinite bool

text \<open>The number of binary digits of a natural number.\<close>

fun bit_length :: "nat \<Rightarrow> nat" where
  "bit_length n = (if n = 0 then 0 else Suc (bit_length (n div 2)))"

declare bit_length.simps [simp del]

text \<open>The integer nearest to \<open>num / den\<close>, a tie going to the even neighbour.\<close>

definition round_half_even :: "nat \<Rightarrow> nat \<Rightarrow> nat" where
  "round_half_even num den =
     (let q = num div den; r = num mod den
      in if 2 * r < den \<or> (2 * r = den \<and> even q) then q else q + 1)"

text \<open>
  Rounding of the positive rational \<open>num / den\<close> to binary64 in the default mode
  (to nearest, ties to even): \<open>k\<close> is the binary exponent of the quotient, the
  significand gets 53 bits, fewer below the smallest normal number \<open>2 ^ (-1022)\<close>, and
  a result of \<open>2 ^ 1024\<close> or more is an overflow, returned as \<open>Infinite\<close>.
\<close>

definition nearest_double :: "bool \<Rightarrow> nat \<Rightarrow> nat \<Rightarrow> pyfloat" where
  "nearest_double s num den =
     (if num = 0 then Finite s 0 0
      else
        let k0 = int (bit_length num) - int (bit_length den);
            k = (if den * 2 ^ nat k0 \<le> num * 2 ^ nat (- k0) then k0 else k0 - 1);
            e = max (k - 52) (- 1074);
            m = round_half_even (num * 2 ^ nat (- e)) (den * 2 ^ nat e)
        in if int (bit_length m) + e > 1024 then Infinite s else Finite s m e)"

text \<open>
  \<^verbatim>\<open>a / b\<close> on integers is true division: the float nearest to the exact quotient,
  \<^verbatim>\<open>ZeroDivisionError\<close> for a zero divisor, \<^verbatim>\<open>OverflowError\<close> when the quotient
  is too large for a float. On other values \<^verbatim>\<open>/\<close> raises \<^verbatim>\<open>TypeError\<close>.
\<close>

definition int_true_divide :: "int \<Rightarrow> int \<Rightarrow> error + pyfloat" where
  "int_true_divide a b =
     (if b = 0 then Inl ZeroDivisionError
      else (case nearest_double ((a < 0) \<noteq> (b < 0)) (nat \<bar>a\<bar>) (nat \<bar>b\<bar>) of
              Infinite s \<Rightarrow> Inl OverflowError
            | Finite s m e \<Rightarrow> Inr (Finite s m e)))"

fun py_truediv :: "pyval \<Rightarrow> pyval \<Rightarrow> error + pyfloat" where
  "py_truediv (IntV a) (IntV b) = int_true_divide a b"
| "py_truediv v w = Inl TypeError"

text \<open>
  \<^verbatim>\<open>x * c\<close> for a float \<open>x\<close> and a positive integer constant \<open>c\<close> that is a float
  itself, such as 100: the exact product, rounded. A float product that overflows is an
  infinity, not an exception.
\<close>

definition float_times :: "pyfloat \<Rightarrow> nat \<Rightarrow> pyfloat" where
  "float_times x c =
     (case x of
        Infinite s \<Rightarrow> Infinite s
      | Finite s m e \<Rightarrow> nearest_double s (m * c * 2 ^ nat e) (2 ^ nat (- e)))"

text \<open>
  The format \<^verbatim>\<open>.2f\<close>: the sign of the float, then its exact value rounded to
  hundredths (a tie going to the even neighbour), printed with two decimals.
\<close>

definition digit_char :: "nat \<Rightarrow> char" where
  "digit_char d = ''0123456789'' ! d"

fun nat_digits :: "nat \<Rightarrow> string" where
  "nat_digits n =
     (if n < 10 then [digit_char n] else nat_digits (n div 10) @ [digit_char (n mod 10)])"

declare nat_digits.simps [simp del]

definition format_2f :: "pyfloat \<Rightarrow> string" where
  "format_2f x =
     (case x of
        Infinite s \<Rightarrow> (if s then ''-inf'' else ''inf'')
      | Finite s m e \<Rightarrow>
          (let cents = round_half_even (m * 100 * 2 ^ nat e) (2 ^ nat (- e))
           in (if s then ''-'' else []) @ nat_digits (cents div 100) @ ''.'' @
              [digit_char (cents mod 100 div 10), digit_char (cents mod 10)]))"

subsection \<open>The figures cell\<close>

text \<open>
  \<^verbatim>\<open>
  most_populated_high_exposure_count = sum([
      most_populated['Industry_Pop_Lden>=75dB'],
      most_populated['Railways_Pop_Lden>=75dB'],
      most_populated['Road_Pop_Lden>=75dB']
  ])

  most_populated_high_exposure_percent = '{0:.2f}%'.format(
      (most_populated_high_exposure_count / most_populated['AgglomerationPopulation']) * 100
  )
  \<close>
  and the same two statements for \<^verbatim>\<open>least_populated\<close>. \<open>high_exposure_count\<close> and
  \<open>high_exposure_percent\<close> are the two expressions for the record at an address.
\<close>

definition industry_key :: string where
  "industry_key = ''Industry_Pop_Lden>=75dB''"

definition railways_key :: string where
  "railways_key = ''Railways_Pop_Lden>=75dB''"

definition road_key :: string where
  "road_key = ''Road_Pop_Lden>=75dB''"

definition high_exposure_count :: "store \<Rightarrow> addr \<Rightarrow> error + pyval" where
  "high_exposure_count h a =
     (case getitem (h a) industry_key of
        Inl e \<Rightarrow> Inl e
      | Inr i \<Rightarrow>
          (case getitem (h a) railways_key of
             Inl e \<Rightarrow> Inl e
           | Inr r \<Rightarrow>
               (case getitem (h a) road_key of
                  Inl e \<Rightarrow> Inl e
                | Inr d \<Rightarrow> py_sum [i, r, d])))"

definition high_exposure_percent :: "store \<Rightarrow> addr \<Rightarrow> pyval \<Rightarrow> error + string" where
  "high_exposure_percent h a count =
     (case getitem (h a) population_key of
        Inl e \<Rightarrow> Inl e
      | Inr pop \<Rightarrow>
          (case py_truediv count pop of
             Inl e \<Rightarrow> Inl e
           | Inr x \<Rightarrow> Inr (format_2f (float_times x 100) @ ''%'')))"

record figures =
  most_populated_high_exposure_count :: pyval
  most_populated_high_exposure_percent :: string
  least_populated_high_exposure_count :: pyval
  least_populated_high_exposure_percent :: string

text \<open>
  The cell runs the four statements in order. The sentence that it prints at the end is
  put together from these values and those of the query cell by a \<^verbatim>\<open>format\<close> call
  that cannot fail; it is not modelled.
\<close>

definition figures_cell :: "store \<Rightarrow> queries \<Rightarrow> error + figures" where
  "figures_cell h q =
     (case high_exposure_count h (most_populated q) of
        Inl e \<Rightarrow> Inl e
      | Inr mc \<Rightarrow>
          (case high_exposure_percent h (most_populated q) mc of
             Inl e \<Rightarrow> Inl e
           | Inr mp \<Rightarrow>
               (case high_exposure_count h (least_populated q) of
                  Inl e \<Rightarrow> Inl e
                | Inr lc \<Rightarrow>
                    (case high_exposure_percent h (least_populated q) lc of
                       Inl e \<Rightarrow> Inl e
                     | Inr lp \<Rightarrow>
                         Inr \<lparr>most_populated_high_exposure_count = mc,
                              most_populated_high_exposure_percent = mp,
                              least_populated_high_exposure_count = lc,
                              least_populated_high_exposure_percent = lp\<rparr>))))"

subsection \<open>Reading a printed percentage\<close>

text \<open>
  The number that a text such as \<^verbatim>\<open>-12.34%\<close> denotes: an optional minus sign, a
  decimal numeral, a point, two decimals and a percent sign are read as the sign and the
  number of hundredths (here 1234); any other text is not a percentage. The digits are
  read as \<^verbatim>\<open>int\<close> reads them. The source has no such function: it is the yardstick
  for what the figures cell prints.
\<close>

definition read_percent :: "string \<Rightarrow> (bool \<times> nat) option" where
  "read_percent t =
     (let neg = (take 1 t = ''-'');
          body = (if neg then drop 1 t else t);
          whole = takeWhile (\<lambda>c. c \<noteq> CHR ''.'') body;
          rest = dropWhile (\<lambda>c. c \<noteq> CHR ''.'') body
      in if whole \<noteq> [] \<and> length rest = 4 \<and> rest ! 3 = CHR ''%'' then
           (case digits_val 0 whole of
              None \<Rightarrow> None
            | Some w \<Rightarrow>
                (case digit_val (rest ! 1) of
                   None \<Rightarrow> None
                 | Some a \<Rightarrow>
                     (case digit_val (rest ! 2) of
                        None \<Rightarrow> None
                      | Some b \<Rightarrow> Some (neg, 100 * w + 10 * a + b))))
         else None)"

section \<open>A small dataset\<close>

text \<open>
  Two raw rows, at the addresses 0 and 1: an agglomeration \<^verbatim>\<open>A\<close> of 100 inhabitants
  whose industry count is the marker \<^verbatim>\<open>'n/a'\<close>, and the row of the major sources
  outside agglomerations. \<open>example_cleaned\<close> is the first row after cleaning.
\<close>

definition example_rows :: store where
  "example_rows = (\<lambda>a. [])
     (0 := [(''Location/Agglomeration'', StrV ''A''),
            (''AgglomerationPopulation'', StrV ''100''),
            (''Industry_Pop_Lden>=75dB'', StrV ''n/a''),
            (''Railways_Pop_Lden>=75dB'', StrV ''5''),
            (''Road_Pop_Lden>=75dB'', StrV ''5'')],
      1 := [(''Location/Agglomeration'', StrV ''Major sources (outside agglomerations)''),
            (''AgglomerationPopulation'', StrV ''999'')])"

definition example_cleaned :: row where
  "example_cleaned =
     [(''Location/Agglomeration'', StrV ''A''),
      (''AgglomerationPopulation'', IntV 100),
      (''Industry_Pop_Lden>=75dB'', IntV 0),
      (''Railways_Pop_Lden>=75dB'', IntV 5),
      (''Road_Pop_Lden>=75dB'', IntV 5)]"


text \<open>
  The dataset that the builder makes of the two rows holds the first one only; these are
  the values that the query cell binds over it.
\<close>

definition example_queries :: queries where
  "example_queries = \<lparr>columns = 5, rows = 1, most_populated = 0, least_populated = 0\<rparr>"

text \<open>
  Four cleaned records at the addresses 0 to 3, with populations 5, 9, 9 and 5: the
  largest and the smallest population both occur twice.
\<close>

definition tie_rows :: store where
  "tie_rows = (\<lambda>a. [])
     (0 := [(''Location/Agglomeration'', StrV ''P''), (''AgglomerationPopulation'', IntV 5)],
      1 := [(''Location/Agglomeration'', StrV ''Q''), (''AgglomerationPopulation'', IntV 9)],
      2 := [(''Location/Agglomeration'', StrV ''R''), (''AgglomerationPopulation'', IntV 9)],
      3 := [(''Location/Agglomeration'', StrV ''S''), (''AgglomerationPopulation'', IntV 5)])"

definition tie_pop :: "addr \<Rightarrow> int" where
  "tie_pop a = (if a = 1 \<or> a = 2 then 9 else 5)"

text \<open>
  One raw row whose population field reads \<^verbatim>\<open>'n/a'\<close>, which the cleaner turns into
  the integer 0; \<open>zero_cleaned\<close> is the row after cleaning.
\<close>

definition zero_rows :: store where
  "zero_rows = (\<lambda>a. [])
     (0 := [(''Location/Agglomeration'', StrV ''B''),
            (''AgglomerationPopulation'', StrV ''n/a''),
            (''Industry_Pop_Lden>=75dB'', StrV ''0''),
            (''Railways_Pop_Lden>=75dB'', StrV ''0''),
            (''Road_Pop_Lden>=75dB'', StrV ''0'')])"

definition zero_cleaned :: row where
  "zero_cleaned =
     [(''Location/Agglomeration'', StrV ''B''),
      (''AgglomerationPopulation'', IntV 0),
      (''Industry_Pop_Lden>=75dB'', IntV 0),
      (''Railways_Pop_Lden>=75dB'', IntV 0),
      (''Road_Pop_Lden>=75dB'', IntV 0)]"
text \<open>
  Two cleaned records whose exact percentage lies on, or just above, the middle between
  two hundredths: 300 of 400000 is 0.075 percent, and the second record is larger by
  \<open>5 / 10 ^ 19\<close> of a percent.
\<close>

definition rounding_rows :: store where
  "rounding_rows = (\<lambda>a. [])
     (0 := [(''Location/Agglomeration'', StrV ''X''),
            (''AgglomerationPopulation'', IntV 400000),
            (''Industry_Pop_Lden>=75dB'', IntV 300),
            (''Railways_Pop_Lden>=75dB'', IntV 0),
            (''Road_Pop_Lden>=75dB'', IntV 0)],
      1 := [(''Location/Agglomeration'', StrV ''Y''),
            (''AgglomerationPopulation'', IntV 200000000000000000000),
            (''Industry_Pop_Lden>=75dB'', IntV 150000000000000001),
            (''Railways_Pop_Lden>=75dB'', IntV 0),
            (''Road_Pop_Lden>=75dB'', IntV 0)])"

section \<open>Properties of the row cleaner\<close>

lemma getitem_KeyError_iff: "getitem r k = Inl e \<longleftrightarrow> (e = KeyError k \<and> k \<notin> fst ` set r)"
  by (induction r) (auto split: if_splits)

lemma setitem_nth: "wf_row r \<Longrightarrow> i < length r \<Longrightarrow> fst (r ! i) = k \<Longrightarrow> setitem r k v = r[i := (k, v)]"
  unfolding wf_row_def
proof (induction r arbitrary: i)
  case Nil
  then show ?case by simp
next
  case (Cons p r)
  obtain k' v' where p: "p = (k', v')" by (cases p)
  show ?case
  proof (cases i)
    case 0
    with Cons.prems p show ?thesis by simp
  next
    case (Suc j)
    with Cons.prems p have "k' \<noteq> k" by (auto simp: rev_image_eqI dest!: nth_mem)
    with Cons Suc p show ?thesis by simp
  qed
qed

lemma clean_body_row:
  "clean_body a key value h =
     (case row_body key value (h a) of Inl e \<Rightarrow> Inl e | Inr r \<Rightarrow> Inr (h(a := r)))"
  by (simp add: clean_body_def row_body_def Let_def split: sum.splits)

lemma clean_loop_row:
  "clean_loop a ps h =
     (case row_loop ps (h a) of Inl e \<Rightarrow> Inl e | Inr r \<Rightarrow> Inr (h(a := r)))"
proof (induction ps arbitrary: h)
  case Nil
  then show ?case by simp
next
  case (Cons i ps)
  obtain k v where kv: "h a ! i = (k, v)" by (cases "h a ! i")
  show ?case
  proof (cases "row_body k v (h a)")
    case (Inl e)
    with kv show ?thesis by (simp add: clean_body_row)
  next
    case (Inr r)
    have "clean_loop a (i # ps) h = clean_loop a ps (h(a := r))"
      using kv Inr by (simp add: clean_body_row)
    also have "\<dots> = (case row_loop ps r of Inl e \<Rightarrow> Inl e | Inr r' \<Rightarrow> Inr (h(a := r')))"
      by (simp add: Cons.IH split: sum.splits)
    finally show ?thesis using kv Inr by simp
  qed
qed

lemma int_of_str_na: "int_of_str ''n/a'' = Inl ValueError"
  by (simp add: int_of_str_def strip_def is_space_def digit_val_def)

lemma py_int_error: "py_int v = Inl e \<Longrightarrow> e = ValueError \<or> v = NoneV"
  by (cases v) (auto simp: int_of_str_def split: prod.splits if_splits option.splits)

lemma row_body_nth:
  assumes "wf_row r" "i < length r" "r ! i = (k, v)" "v \<noteq> NoneV"
  shows "row_body k v r = Inr (r[i := clean_item (r ! i)])"
proof -
  have set: "\<And>x. setitem r k x = r[i := (k, x)]"
    using assms by (simp add: setitem_nth)
  show ?thesis
  proof (cases "py_int v")
    case (Inl e)
    with assms py_int_error have e: "e = ValueError" by blast
    show ?thesis
      using Inl e assms(3) set
      by (auto simp add: row_body_def clean_item_def clean_value_def)
        (metis assms(3) list_update_id)
  next
    case (Inr n)
    then have "v \<noteq> StrV ''n/a''" using int_of_str_na by auto
    with Inr assms(3) set show ?thesis
      by (simp add: row_body_def clean_item_def clean_value_def)
  qed
qed


lemma row_loop_append:
  "row_loop (ps @ qs) r = (case row_loop ps r of Inl e \<Rightarrow> Inl e | Inr r' \<Rightarrow> row_loop qs r')"
  by (induction ps arbitrary: r) (auto split: sum.splits prod.splits)

lemma wf_row_take_map:
  "wf_row r \<Longrightarrow> wf_row (map clean_item (take j r) @ drop j r)"
proof -
  have "map fst (map clean_item (take j r) @ drop j r) = map fst (take j r) @ map fst (drop j r)"
    by (simp add: clean_item_def comp_def)
  also have "\<dots> = map fst (take j r @ drop j r)"
    by (simp only: map_append)
  finally have "map fst (map clean_item (take j r) @ drop j r) = map fst r"
    by simp
  then show "wf_row r \<Longrightarrow> ?thesis" by (simp only: wf_row_def)
qed

lemma row_loop_prefix:
  assumes "wf_row r" "NoneV \<notin> snd ` set r" "j \<le> length r"
  shows "row_loop [0..<j] r = Inr (map clean_item (take j r) @ drop j r)"
  using assms(3)
proof (induction j)
  case 0
  then show ?case by simp
next
  case (Suc j)
  let ?r = "map clean_item (take j r) @ drop j r"
  from Suc.prems have j: "j < length r" by simp
  have nth: "?r ! j = r ! j" using j by (simp add: nth_append)
  obtain k v where kv: "r ! j = (k, v)" by (cases "r ! j")
  have "(k, v) \<in> set r" using j kv by (metis nth_mem)
  with assms(2) have v: "v \<noteq> NoneV" by force
  have "row_body k v ?r = Inr (?r[j := clean_item (?r ! j)])"
    using wf_row_take_map[OF assms(1)] j nth kv v by (intro row_body_nth) auto
  also have "?r[j := clean_item (?r ! j)] = map clean_item (take (Suc j) r) @ drop (Suc j) r"
    using j nth by (simp add: take_Suc_conv_app_nth list_update_append flip: Cons_nth_drop_Suc)
  finally have body: "row_body k v ?r = Inr (map clean_item (take (Suc j) r) @ drop (Suc j) r)" .
  have "row_loop [0..<Suc j] r = row_loop [j] ?r"
    using Suc.IH j by (simp add: row_loop_append)
  also have "\<dots> = Inr (map clean_item (take (Suc j) r) @ drop (Suc j) r)"
    using nth kv body by simp
  finally show ?case .
qed

lemma row_loop_all:
  assumes "wf_row r" "NoneV \<notin> snd ` set r"
  shows "row_loop [0..<length r] r = Inr (map clean_item r)"
  using row_loop_prefix[OF assms, of "length r"] by simp

text \<open>The contents-level description of clean.\<close>

lemma clean_row:
  "clean h a =
     (case getitem (h a) location_key of
        Inl e \<Rightarrow> Inl e
      | Inr loc \<Rightarrow>
          if loc = StrV major_sources then Inr (h, None)
          else (case row_loop [0..<length (h a)] (h a) of
                  Inl e \<Rightarrow> Inl e
                | Inr r \<Rightarrow> Inr (h(a := r), Some a)))"
  by (simp add: clean_def clean_loop_row split: sum.splits)

lemma clean_kept:
  assumes "wf_row (h a)" "NoneV \<notin> snd ` set (h a)"
    and "getitem (h a) location_key = Inr loc" "loc \<noteq> StrV major_sources"
  shows "clean h a = Inr (h(a := map clean_item (h a)), Some a)"
  using assms by (simp add: clean_row row_loop_all)

lemma clean_dropped:
  assumes "getitem (h a) location_key = Inr (StrV major_sources)"
  shows "clean h a = Inr (h, None)"
  using assms by (simp add: clean_row)

lemma clean_frame:
  assumes "clean h a = Inr (h', ret)"
  shows "(\<forall>b. b \<noteq> a \<longrightarrow> h' b = h b) \<and> (ret = None \<or> ret = Some a) \<and> (ret = None \<longrightarrow> h' = h)"
  using assms by (auto simp: clean_row split: sum.splits if_splits)

lemma raw_row_no_None: "raw_row r \<Longrightarrow> NoneV \<notin> snd ` set r"
  by (auto simp: raw_row_def list_all_iff)

lemma already_clean_no_None: "already_clean r \<Longrightarrow> NoneV \<notin> snd ` set r"
  by (auto simp: already_clean_def list_all_iff)

lemma clean_val_fixed: "clean_val v \<Longrightarrow> clean_value v = v"
  by (cases v) (auto simp: clean_value_def)

lemma already_clean_map: "already_clean r \<Longrightarrow> map clean_item r = r"
  by (induction r) (auto simp: already_clean_def clean_item_def clean_val_fixed)

text \<open>
  Cleaning a second time changes nothing: what the cleaner makes of a row without
  \<^verbatim>\<open>None\<close> values is already clean, and its location is still not the excluded one.
\<close>

lemma clean_val_clean_value: "v \<noteq> NoneV \<Longrightarrow> clean_val (clean_value v)"
proof (cases v)
  case (StrV s)
  show ?thesis
  proof (cases "int_of_str s")
    case (Inl e)
    then have "e = ValueError" using py_int_error[of "StrV s" e] by simp
    with Inl StrV show ?thesis by (simp add: clean_value_def)
  next
    case (Inr n)
    with StrV show ?thesis by (simp add: clean_value_def)
  qed
qed (simp_all add: clean_value_def)

lemma already_clean_cleaned:
  "NoneV \<notin> snd ` set r \<Longrightarrow> already_clean (map clean_item r)"
  by (induction r) (auto simp: already_clean_def clean_item_def clean_val_clean_value)

lemma clean_value_not_excluded:
  "v \<noteq> StrV major_sources \<Longrightarrow> clean_value v \<noteq> StrV major_sources"
  by (auto simp: clean_value_def split: sum.splits if_splits)

lemma getitem_cleaned:
  "getitem r k = Inr v \<Longrightarrow> getitem (map clean_item r) k = Inr (clean_value v)"
  by (induction r) (auto simp: clean_item_def split: if_splits)

lemma wf_row_cleaned: "wf_row r \<Longrightarrow> wf_row (map clean_item r)"
  using wf_row_take_map[of r "length r"] by simp

lemma clean_twice:
  assumes "wf_row (h a)" "NoneV \<notin> snd ` set (h a)"
    and "getitem (h a) location_key = Inr loc" "loc \<noteq> StrV major_sources"
    and "clean h a = Inr (h', ret)"
  shows "clean h' a = Inr (h', ret)"
proof -
  let ?r = "map clean_item (h a)"
  from assms have h': "h' = h(a := ?r)" and ret: "ret = Some a"
    using clean_kept[of h a loc] by simp_all
  have 1: "wf_row ((h(a := ?r)) a)"
    using assms(1) by (simp add: wf_row_cleaned)
  have 2: "NoneV \<notin> snd ` set ((h(a := ?r)) a)"
    using already_clean_no_None[OF already_clean_cleaned[OF assms(2)]] by simp
  have 3: "getitem ((h(a := ?r)) a) location_key = Inr (clean_value loc)"
    using assms(3) by (simp add: getitem_cleaned)
  have 4: "clean_value loc \<noteq> StrV major_sources"
    using assms(4) by (rule clean_value_not_excluded)
  have c: "clean (h(a := ?r)) a = Inr ((h(a := ?r))(a := map clean_item ?r), Some a)"
    using clean_kept[of "h(a := ?r)" a "clean_value loc", OF 1 2 3 4] by simp
  have m: "map clean_item ?r = ?r"
    using assms(2) by (intro already_clean_map already_clean_cleaned)
  have "(h(a := ?r))(a := map clean_item ?r) = h(a := ?r)"
    unfolding m by simp
  with c h' ret show ?thesis by (simp only:)
qed

section \<open>Properties of the dataset builder\<close>

lemma getitem_map_clean:
  "getitem (map clean_item r) k =
     (case getitem r k of Inl e \<Rightarrow> Inl e | Inr v \<Rightarrow> Inr (clean_value v))"
  by (induction r) (auto simp: clean_item_def)

lemma clean_value_na: "clean_value (StrV ''n/a'') = IntV 0"
  by (simp add: clean_value_def int_of_str_na)

lemma int_of_str_error: "int_of_str s = Inl e \<Longrightarrow> e = ValueError"
  using py_int_error[of "StrV s" e] by simp

lemma row_body_error: "row_body k v r = Inl e \<Longrightarrow> e = TypeError"
  by (cases v) (auto simp: row_body_def Let_def split: sum.splits if_splits dest: int_of_str_error)

lemma row_loop_error: "row_loop ps r = Inl e \<Longrightarrow> e = TypeError"
  by (induction ps arbitrary: r) (auto split: prod.splits sum.splits dest: row_body_error)

lemma build_loop_not_in:
  assumes "getitem (h a) location_key = Inr (StrV major_sources)"
    and "build_loop reader h data = Inr (h', data')" "a \<notin> set data"
  shows "a \<notin> set data'"
  using assms
proof (induction reader arbitrary: h data)
  case Nil
  then show ?case by simp
next
  case (Cons b reader)
  from Cons.prems(2) obtain h1 ret where c: "clean h b = Inr (h1, ret)"
    by (auto split: sum.splits)
  show ?case
  proof (cases "b = a")
    case True
    with c Cons.prems(1) have "h1 = h" "ret = None" by (simp_all add: clean_dropped)
    with Cons.prems c Cons.IH[of h data] show ?thesis by simp
  next
    case False
    from clean_frame[of h b h1 ret] c False have h1: "h1 a = h a" and ret: "ret = None \<or> ret = Some b"
      by auto
    from Cons.prems(2) c ret have
      "build_loop reader h1 data = Inr (h', data') \<or> build_loop reader h1 (data @ [b]) = Inr (h', data')"
      by (auto split: option.splits if_splits)
    then show ?thesis
      using Cons.IH[of h1 data] Cons.IH[of h1 "data @ [b]"] Cons.prems(1,3) h1 False by auto
  qed
qed

lemma build_loop_char:
  assumes "distinct reader"
    and "\<forall>a\<in>set reader. wf_row (h a) \<and> NoneV \<notin> snd ` set (h a) \<and> location_key \<in> fst ` set (h a)"
  shows "build_loop reader h data =
     Inr (\<lambda>b. if b \<in> set reader \<and> kept (h b) then map clean_item (h b) else h b,
          data @ filter (\<lambda>a. kept (h a)) reader)"
  using assms
proof (induction reader arbitrary: h data)
  case Nil
  then show ?case by simp
next
  case (Cons a reader)
  from Cons.prems obtain loc where loc: "getitem (h a) location_key = Inr loc"
    by (cases "getitem (h a) location_key") (auto simp: getitem_KeyError_iff)
  show ?case
  proof (cases "loc = StrV major_sources")
    case True
    with loc have "clean h a = Inr (h, None)" by (simp add: clean_dropped)
    moreover have "\<not> kept (h a)" using loc True by (simp add: kept_def)
    ultimately show ?thesis using Cons.IH[of h data] Cons.prems by auto
  next
    case False
    let ?h = "h(a := map clean_item (h a))"
    have c: "clean h a = Inr (?h, Some a)"
      using Cons.prems loc False by (simp add: clean_kept)
    have k: "kept (h a)" using loc False by (simp add: kept_def)
    have ne: "?h a \<noteq> []" using loc by (cases "h a") auto
    have same: "\<forall>b\<in>set reader. ?h b = h b" using Cons.prems(1) by auto
    have "build_loop (a # reader) h data = build_loop reader ?h (data @ [a])"
      using c ne by simp
    also have "\<dots> = Inr (\<lambda>b. if b \<in> set reader \<and> kept (?h b) then map clean_item (?h b) else ?h b,
          (data @ [a]) @ filter (\<lambda>a. kept (?h a)) reader)"
      using Cons.prems same by (intro Cons.IH) auto
    also have "filter (\<lambda>a. kept (?h a)) reader = filter (\<lambda>a. kept (h a)) reader"
      using same by (intro filter_cong) auto
    also have "(\<lambda>b. if b \<in> set reader \<and> kept (?h b) then map clean_item (?h b) else ?h b)
       = (\<lambda>b. if b \<in> set (a # reader) \<and> kept (h b) then map clean_item (h b) else h b)"
      using same k Cons.prems(1) by auto
    finally show ?thesis using k by simp
  qed
qed

section \<open>Properties of the selection\<close>

lemma extremum_loop_ints:
  assumes better: "\<And>x y. better (IntV x) (IntV y) = Inr ((f y :: int) < f x)"
    and keys: "\<forall>a\<in>set rest. getitem (h a) k = Inr (IntV (pop a))"
  shows "\<exists>r. extremum_loop better h k best (IntV b) rest = Inr r \<and>
      ((r = best \<and> (\<forall>a\<in>set rest. f (pop a) \<le> f b)) \<or>
       (\<exists>pre post. rest = pre @ r # post \<and> f b < f (pop r) \<and>
          (\<forall>a\<in>set pre. f (pop a) < f (pop r)) \<and> (\<forall>a\<in>set post. f (pop a) \<le> f (pop r))))"
  using keys
proof (induction rest arbitrary: best b)
  case Nil
  then show ?case by simp
next
  case (Cons item rest)
  from Cons.prems have item: "getitem (h item) k = Inr (IntV (pop item))"
    and rest: "\<forall>a\<in>set rest. getitem (h a) k = Inr (IntV (pop a))"
    by simp_all
  show ?case
  proof (cases "f b < f (pop item)")
    case True
    then have step: "extremum_loop better h k best (IntV b) (item # rest) =
        extremum_loop better h k item (IntV (pop item)) rest"
      using item by (simp add: better)
    from Cons.IH[OF rest, of item "pop item"] obtain r where
      r: "extremum_loop better h k item (IntV (pop item)) rest = Inr r"
      and alt: "(r = item \<and> (\<forall>a\<in>set rest. f (pop a) \<le> f (pop item))) \<or>
       (\<exists>pre post. rest = pre @ r # post \<and> f (pop item) < f (pop r) \<and>
          (\<forall>a\<in>set pre. f (pop a) < f (pop r)) \<and> (\<forall>a\<in>set post. f (pop a) \<le> f (pop r)))"
      by (elim exE conjE)
    from alt have "\<exists>pre post. item # rest = pre @ r # post \<and> f b < f (pop r) \<and>
          (\<forall>a\<in>set pre. f (pop a) < f (pop r)) \<and> (\<forall>a\<in>set post. f (pop a) \<le> f (pop r))"
    proof
      assume "r = item \<and> (\<forall>a\<in>set rest. f (pop a) \<le> f (pop item))"
      with True have "item # rest = [] @ r # rest \<and> f b < f (pop r) \<and>
          (\<forall>a\<in>set []. f (pop a) < f (pop r)) \<and> (\<forall>a\<in>set rest. f (pop a) \<le> f (pop r))"
        by auto
      then show ?thesis by (intro exI)
    next
      assume "\<exists>pre post. rest = pre @ r # post \<and> f (pop item) < f (pop r) \<and>
          (\<forall>a\<in>set pre. f (pop a) < f (pop r)) \<and> (\<forall>a\<in>set post. f (pop a) \<le> f (pop r))"
      then obtain pre post where "rest = pre @ r # post" "f (pop item) < f (pop r)"
          "\<forall>a\<in>set pre. f (pop a) < f (pop r)" "\<forall>a\<in>set post. f (pop a) \<le> f (pop r)"
        by (elim exE conjE)
      with True have "item # rest = (item # pre) @ r # post \<and> f b < f (pop r) \<and>
          (\<forall>a\<in>set (item # pre). f (pop a) < f (pop r)) \<and> (\<forall>a\<in>set post. f (pop a) \<le> f (pop r))"
        by auto
      then show ?thesis by (intro exI)
    qed
    with step r show ?thesis by simp
  next
    case False
    then have step: "extremum_loop better h k best (IntV b) (item # rest) =
        extremum_loop better h k best (IntV b) rest"
      using item by (simp add: better)
    from Cons.IH[OF rest, of best b] obtain r where
      r: "extremum_loop better h k best (IntV b) rest = Inr r"
      and alt: "(r = best \<and> (\<forall>a\<in>set rest. f (pop a) \<le> f b)) \<or>
       (\<exists>pre post. rest = pre @ r # post \<and> f b < f (pop r) \<and>
          (\<forall>a\<in>set pre. f (pop a) < f (pop r)) \<and> (\<forall>a\<in>set post. f (pop a) \<le> f (pop r)))"
      by (elim exE conjE)
    from alt have "(r = best \<and> (\<forall>a\<in>set (item # rest). f (pop a) \<le> f b)) \<or>
       (\<exists>pre post. item # rest = pre @ r # post \<and> f b < f (pop r) \<and>
          (\<forall>a\<in>set pre. f (pop a) < f (pop r)) \<and> (\<forall>a\<in>set post. f (pop a) \<le> f (pop r)))"
    proof
      assume "r = best \<and> (\<forall>a\<in>set rest. f (pop a) \<le> f b)"
      with False show ?thesis by auto
    next
      assume "\<exists>pre post. rest = pre @ r # post \<and> f b < f (pop r) \<and>
          (\<forall>a\<in>set pre. f (pop a) < f (pop r)) \<and> (\<forall>a\<in>set post. f (pop a) \<le> f (pop r))"
      then obtain pre post where "rest = pre @ r # post" "f b < f (pop r)"
          "\<forall>a\<in>set pre. f (pop a) < f (pop r)" "\<forall>a\<in>set post. f (pop a) \<le> f (pop r)"
        by (elim exE conjE)
      with False have "item # rest = (item # pre) @ r # post \<and> f b < f (pop r) \<and>
          (\<forall>a\<in>set (item # pre). f (pop a) < f (pop r)) \<and> (\<forall>a\<in>set post. f (pop a) \<le> f (pop r))"
        by auto
      then have "\<exists>pre post. item # rest = pre @ r # post \<and> f b < f (pop r) \<and>
          (\<forall>a\<in>set pre. f (pop a) < f (pop r)) \<and> (\<forall>a\<in>set post. f (pop a) \<le> f (pop r))"
        by (intro exI)
      then show ?thesis ..
    qed
    with step r show ?thesis by simp
  qed
qed

lemma extremum_ints:
  assumes better: "\<And>x y. better (IntV x) (IntV y) = Inr ((f y :: int) < f x)"
    and ne: "data \<noteq> []"
    and keys: "\<forall>a\<in>set data. getitem (h a) k = Inr (IntV (pop a))"
  shows "\<exists>r pre post. extremum better h k data = Inr r \<and> data = pre @ r # post \<and>
          (\<forall>a\<in>set pre. f (pop a) < f (pop r)) \<and> (\<forall>a\<in>set post. f (pop a) \<le> f (pop r))"
proof -
  from ne obtain item rest where d: "data = item # rest" by (cases data) auto
  with keys have item: "getitem (h item) k = Inr (IntV (pop item))"
    and rest: "\<forall>a\<in>set rest. getitem (h a) k = Inr (IntV (pop a))"
    by simp_all
  have ex: "extremum better h k data = extremum_loop better h k item (IntV (pop item)) rest"
    using d item by (simp add: extremum_def)
  from extremum_loop_ints[of better f rest h k pop item "pop item", OF better rest] obtain r where
    r: "extremum_loop better h k item (IntV (pop item)) rest = Inr r"
    and alt: "(r = item \<and> (\<forall>a\<in>set rest. f (pop a) \<le> f (pop item))) \<or>
       (\<exists>pre post. rest = pre @ r # post \<and> f (pop item) < f (pop r) \<and>
          (\<forall>a\<in>set pre. f (pop a) < f (pop r)) \<and> (\<forall>a\<in>set post. f (pop a) \<le> f (pop r)))"
    by (elim exE conjE)
  from alt have "\<exists>pre post. data = pre @ r # post \<and>
          (\<forall>a\<in>set pre. f (pop a) < f (pop r)) \<and> (\<forall>a\<in>set post. f (pop a) \<le> f (pop r))"
  proof
    assume "r = item \<and> (\<forall>a\<in>set rest. f (pop a) \<le> f (pop item))"
    with d have "data = [] @ r # rest \<and>
          (\<forall>a\<in>set []. f (pop a) < f (pop r)) \<and> (\<forall>a\<in>set rest. f (pop a) \<le> f (pop r))"
      by auto
    then show ?thesis by (intro exI)
  next
    assume "\<exists>pre post. rest = pre @ r # post \<and> f (pop item) < f (pop r) \<and>
          (\<forall>a\<in>set pre. f (pop a) < f (pop r)) \<and> (\<forall>a\<in>set post. f (pop a) \<le> f (pop r))"
    then obtain pre post where "rest = pre @ r # post" "f (pop item) < f (pop r)"
        "\<forall>a\<in>set pre. f (pop a) < f (pop r)" "\<forall>a\<in>set post. f (pop a) \<le> f (pop r)"
      by (elim exE conjE)
    with d have "data = (item # pre) @ r # post \<and>
          (\<forall>a\<in>set (item # pre). f (pop a) < f (pop r)) \<and> (\<forall>a\<in>set post. f (pop a) \<le> f (pop r))"
      by auto
    then show ?thesis by (intro exI)
  qed
  with ex r show ?thesis by simp
qed

lemma py_max_ints:
  assumes "data \<noteq> []" "\<forall>a\<in>set data. getitem (h a) k = Inr (IntV (pop a))"
  shows "\<exists>r pre post. py_max h k data = Inr r \<and> data = pre @ r # post \<and>
          (\<forall>a\<in>set pre. pop a < pop r) \<and> (\<forall>a\<in>set post. pop a \<le> pop r)"
  unfolding py_max_def
  using extremum_ints[of py_gt "\<lambda>x. x" data h k pop, OF _ assms] by simp

lemma py_min_ints:
  assumes "data \<noteq> []" "\<forall>a\<in>set data. getitem (h a) k = Inr (IntV (pop a))"
  shows "\<exists>r pre post. py_min h k data = Inr r \<and> data = pre @ r # post \<and>
          (\<forall>a\<in>set pre. pop r < pop a) \<and> (\<forall>a\<in>set post. pop r \<le> pop a)"
  unfolding py_min_def
  using extremum_ints[of py_lt "\<lambda>x. - x" data h k pop, OF _ assms] by simp

section \<open>Properties of the figures\<close>

lemma extremum_loop_in_set:
  "extremum_loop better h k best bestval rest = Inr r \<Longrightarrow> r = best \<or> r \<in> set rest"
  by (induction rest arbitrary: best bestval) (auto split: sum.splits if_splits)

lemma extremum_in_set: "extremum better h k data = Inr r \<Longrightarrow> r \<in> set data"
  by (auto simp: extremum_def split: list.splits sum.splits dest: extremum_loop_in_set)

lemma query_cell_in_set:
  assumes "query_cell h data = Inr q"
  shows "most_populated q \<in> set data \<and> least_populated q \<in> set data"
proof -
  from assms obtain mp lp where "py_max h population_key data = Inr mp"
    "py_min h population_key data = Inr lp" "most_populated q = mp" "least_populated q = lp"
    by (auto simp: query_cell_def split: list.splits sum.splits)
  then show ?thesis
    using extremum_in_set[of py_gt h population_key data mp]
      extremum_in_set[of py_lt h population_key data lp]
    by (simp add: py_max_def py_min_def)
qed

lemma high_exposure_count_ints:
  assumes "getitem (h a) industry_key = Inr (IntV i)"
    and "getitem (h a) railways_key = Inr (IntV r)"
    and "getitem (h a) road_key = Inr (IntV d)"
  shows "high_exposure_count h a = Inr (IntV (i + r + d))"
  using assms by (simp add: high_exposure_count_def py_sum_def)

lemma high_exposure_percent_ints:
  assumes "getitem (h a) population_key = Inr (IntV p)"
  shows "high_exposure_percent h a (IntV c) =
     (case int_true_divide c p of
        Inl e \<Rightarrow> Inl e
      | Inr x \<Rightarrow> Inr (format_2f (float_times x 100) @ ''%''))"
  using assms by (simp add: high_exposure_percent_def)

lemma getitem_error: "getitem r k = Inl e \<Longrightarrow> e = KeyError k"
  by (induction r) (auto split: if_splits)

lemma py_add_error: "py_add x y = Inl e \<Longrightarrow> e = TypeError"
  by (cases x; cases y) simp_all

lemma high_exposure_count_error:
  "high_exposure_count h a = Inl e \<Longrightarrow> e \<noteq> ZeroDivisionError"
  by (auto simp: high_exposure_count_def py_sum_def split: sum.splits
      dest: getitem_error py_add_error)

lemma nearest_double_no_zerodiv:
  "int_true_divide a b = Inl ZeroDivisionError \<longleftrightarrow> b = 0"
  by (simp add: int_true_divide_def split: pyfloat.splits)

lemma py_truediv_zerodiv:
  "py_truediv c v = Inl ZeroDivisionError \<Longrightarrow> v = IntV 0"
  by (cases c; cases v) (simp_all add: nearest_double_no_zerodiv)

lemma high_exposure_percent_zerodiv:
  "high_exposure_percent h a c = Inl ZeroDivisionError \<Longrightarrow>
     getitem (h a) population_key = Inr (IntV 0)"
  by (auto simp: high_exposure_percent_def split: sum.splits
      dest: py_truediv_zerodiv getitem_error)

lemma figures_cell_zerodiv:
  assumes "figures_cell h q = Inl ZeroDivisionError"
  shows "getitem (h (most_populated q)) population_key = Inr (IntV 0) \<or>
         getitem (h (least_populated q)) population_key = Inr (IntV 0)"
  using assms
  by (auto simp: figures_cell_def split: sum.splits
      dest: high_exposure_percent_zerodiv high_exposure_count_error)

section \<open>Accuracy of the printed percentage\<close>

text \<open>
  The three roundings of the percentage (the quotient, the product with 100, the
  hundredths of the format) each err by at most half a unit in the last place. The
  lemmas below bound them and show that the printed text reads back as the number of
  hundredths that the format chose.
\<close>

lemma bit_length_bounds: "0 < n \<Longrightarrow> 2 ^ (bit_length n - 1) \<le> n \<and> n < 2 ^ bit_length n"
proof (induction n rule: bit_length.induct)
  case (1 n)
  show ?case
  proof (cases "n div 2 = 0")
    case True
    with "1.prems" have "n = 1" by (simp add: div_eq_0_iff) 
    then show ?thesis by (simp add: bit_length.simps)
  next
    case False
    then have pos: "0 < n div 2" by simp
    from "1.IH" "1.prems" pos have IH: "2 ^ (bit_length (n div 2) - 1) \<le> n div 2"
      "n div 2 < 2 ^ bit_length (n div 2)" by simp_all
    have bl: "bit_length n = Suc (bit_length (n div 2))"
      using "1.prems" by (subst bit_length.simps) simp
    have blpos: "0 < bit_length (n div 2)"
      using pos by (subst bit_length.simps) simp
    then obtain j where j: "bit_length (n div 2) = Suc j" by (cases "bit_length (n div 2)") auto
    from IH j have "2 * 2 ^ j \<le> 2 * (n div 2)" "n < 2 * 2 ^ Suc j" by simp_all
    then show ?thesis using bl j by simp
  qed
qed

lemma bit_length_le: "n < 2 ^ j \<Longrightarrow> bit_length n \<le> j"
proof (cases "n = 0")
  case True
  then show ?thesis by (simp add: bit_length.simps)
next
  case False
  assume a: "n < 2 ^ j"
  from False have b: "2 ^ (bit_length n - 1) \<le> n" using bit_length_bounds[of n] by simp
  from b a have "(2::nat) ^ (bit_length n - 1) < 2 ^ j" by (rule le_less_trans)
  then have "bit_length n - 1 < j" by (simp only: power_strict_increasing_iff)
  then show ?thesis by simp
qed

lemma round_half_even_error:
  assumes "0 < den"
  shows "\<bar>real (round_half_even num den) - real num / real den\<bar> \<le> 1 / 2"
proof -
  let ?q = "num div den" and ?r = "num mod den"
  have num: "real num = real ?q * real den + real ?r"
    by (metis div_mult_mod_eq of_nat_add of_nat_mult)
  have r: "real ?r < real den" using assms by simp
  have frac: "real num / real den = real ?q + real ?r / real den"
    using assms by (simp add: num field_simps)
  show ?thesis
  proof (cases "2 * ?r < den \<or> (2 * ?r = den \<and> even ?q)")
    case True
    then have "round_half_even num den = ?q" by (simp add: round_half_even_def Let_def)
    moreover from True have "2 * real ?r \<le> real den"
      by (metis mult_2 of_nat_add of_nat_le_iff order_less_imp_le order_refl)
    ultimately show ?thesis using assms by (simp add: frac field_simps)
  next
    case False
    then have "round_half_even num den = ?q + 1" by (simp add: round_half_even_def Let_def)
    moreover from False have "real den \<le> 2 * real ?r"
      by (metis linorder_not_less mult_2 of_nat_add of_nat_le_iff)
    ultimately show ?thesis using assms r by (simp add: frac field_simps)
  qed
qed

lemma pow_nat_ratio: "real (2 ^ nat j) / real (2 ^ nat (- j)) = 2 powi j"
proof (cases "0 \<le> j")
  case True
  then show ?thesis by (simp add: power_int_def)
next
  case False
  then show ?thesis by (simp add: power_int_def field_simps)
qed

lemma two_powi_diff: "(2::real) powi a / 2 powi b = 2 powi (a - b)"
  by (simp add: power_int_diff)

lemma nearest_double_normal:
  assumes num: "0 < num" and den: "0 < den"
    and lo: "2 powi L \<le> real num / real den" and L: "- 1022 \<le> L"
    and hi: "real num / real den < 2 powi H" and H: "H \<le> 1023"
  shows "\<exists>m e. nearest_double s num den = Finite s m e \<and>
           \<bar>real m * 2 powi e - real num / real den\<bar> \<le> real num / real den / 2 ^ 53"
proof -
  define q where "q = real num / real den"
  define k0 where "k0 = int (bit_length num) - int (bit_length den)"
  define k where "k = (if den * 2 ^ nat k0 \<le> num * 2 ^ nat (- k0) then k0 else k0 - 1)"
  define e where "e = k - 52"
  define m where "m = round_half_even (num * 2 ^ nat (- e)) (den * 2 ^ nat e)"
  have qpos: "0 < q" using num den by (simp add: q_def)
  have bn: "2 ^ (bit_length num - 1) \<le> num" "num < 2 ^ bit_length num"
    using bit_length_bounds[OF num] by simp_all
  have bd: "2 ^ (bit_length den - 1) \<le> den" "den < 2 ^ bit_length den"
    using bit_length_bounds[OF den] by simp_all
  have bnpos: "0 < bit_length num" using bn(2) num by (cases "bit_length num") auto
  have bdpos: "0 < bit_length den" using bd(2) den by (cases "bit_length den") auto
  have n_hi: "real num < 2 powi int (bit_length num)"
    using bn(2) by (metis of_nat_less_iff of_nat_numeral of_nat_power power_int_of_nat)
  have d_hi: "real den < 2 powi int (bit_length den)"
    using bd(2) by (metis of_nat_less_iff of_nat_numeral of_nat_power power_int_of_nat)
  have n_lo: "2 powi (int (bit_length num) - 1) \<le> real num"
  proof -
    have "int (bit_length num) - 1 = int (bit_length num - 1)" using bnpos by simp
    then show ?thesis
      using bn(1) by (metis of_nat_le_iff of_nat_numeral of_nat_power power_int_of_nat)
  qed
  have d_lo: "2 powi (int (bit_length den) - 1) \<le> real den"
  proof -
    have "int (bit_length den) - 1 = int (bit_length den - 1)" using bdpos by simp
    then show ?thesis
      using bd(1) by (metis of_nat_le_iff of_nat_numeral of_nat_power power_int_of_nat)
  qed
  have q_hi: "q < 2 powi (k0 + 1)"
  proof -
    have "q < 2 powi int (bit_length num) / 2 powi (int (bit_length den) - 1)"
      unfolding q_def using n_hi d_lo by (intro frac_less) simp_all
    also have "\<dots> = 2 powi (int (bit_length num) - (int (bit_length den) - 1))"
      by (rule two_powi_diff)
    finally show ?thesis by (simp add: k0_def algebra_simps)
  qed
  have q_lo: "2 powi (k0 - 1) < q"
  proof -
    have "2 powi (int (bit_length num) - 1) / 2 powi int (bit_length den) < q"
      unfolding q_def using n_lo d_hi den by (intro frac_less2) simp_all
    moreover have "(2::real) powi (int (bit_length num) - 1) / 2 powi int (bit_length den)
        = 2 powi (int (bit_length num) - 1 - int (bit_length den))"
      by (rule two_powi_diff)
    ultimately show ?thesis by (simp add: k0_def algebra_simps)
  qed
  have test: "(den * 2 ^ nat k0 \<le> num * 2 ^ nat (- k0)) \<longleftrightarrow> 2 powi k0 \<le> q"
  proof -
    have "(den * 2 ^ nat k0 \<le> num * 2 ^ nat (- k0)) \<longleftrightarrow>
          real (den * 2 ^ nat k0) \<le> real (num * 2 ^ nat (- k0))"
      by (simp only: of_nat_le_iff)
    also have "\<dots> \<longleftrightarrow> real (2 ^ nat k0) / real (2 ^ nat (- k0)) \<le> real num / real den"
      using den by (simp add: field_simps)
    finally show ?thesis by (simp only: pow_nat_ratio q_def)
  qed
  have k_lo: "2 powi k \<le> q"
    using test q_lo by (auto simp: k_def)
  have k_hi: "q < 2 powi (k + 1)"
    using test q_hi by (auto simp: k_def)
  have k_ge: "- 1022 \<le> k"
  proof (rule ccontr)
    assume "\<not> - 1022 \<le> k"
    with L have "k + 1 \<le> L" by simp
    then have inc: "(2::real) powi (k + 1) \<le> 2 powi L"
      by (intro power_int_increasing) simp_all
    note k_hi
    also note inc
    also have "2 powi L \<le> q" using lo by (simp only: q_def)
    finally show False by simp
  qed
  have k_le: "k \<le> 1022"
  proof (rule ccontr)
    assume "\<not> k \<le> 1022"
    with H have "H \<le> k" by simp
    then have inc: "(2::real) powi H \<le> 2 powi k"
      by (intro power_int_increasing) simp_all
    have "q < 2 powi H" using hi by (simp only: q_def)
    also note inc
    also note k_lo
    finally show False by simp
  qed
  have e_eq: "max (k - 52) (- 1074) = e" using k_ge by (simp add: e_def)
  have P: "(0::real) < 2 powi e" by simp
  have scaled: "real (num * 2 ^ nat (- e)) / real (den * 2 ^ nat e) = q / 2 powi e"
  proof -
    have "real (num * 2 ^ nat (- e)) / real (den * 2 ^ nat e)
        = q * (real (2 ^ nat (- e)) / real (2 ^ nat (- (- e))))"
      by (simp add: q_def)
    also have "\<dots> = q * 2 powi (- e)" by (simp only: pow_nat_ratio)
    also have "\<dots> = q / 2 powi e" by (simp add: power_int_minus field_simps)
    finally show ?thesis .
  qed
  have dpos: "0 < den * 2 ^ nat e" using den by simp
  have err: "\<bar>real m - q / 2 powi e\<bar> \<le> 1 / 2"
    using round_half_even_error[OF dpos, of "num * 2 ^ nat (- e)"] by (simp only: m_def scaled)
  have x_err: "\<bar>real m * 2 powi e - q\<bar> \<le> 2 powi e / 2"
  proof -
    have "real m * 2 powi e - q = (real m - q / 2 powi e) * 2 powi e"
      by (simp add: field_simps)
    then have "\<bar>real m * 2 powi e - q\<bar> = \<bar>real m - q / 2 powi e\<bar> * 2 powi e"
      by (simp add: abs_mult)
    also have "\<dots> \<le> 1 / 2 * 2 powi e"
      using err P by (intro mult_right_mono) simp_all
    finally show ?thesis by simp
  qed
  have half: "(2::real) powi e / 2 = 2 powi k / 2 ^ 53"
  proof -
    have "(2::real) powi e = 2 powi k / 2 powi 52" by (simp add: e_def power_int_diff)
    then show ?thesis by simp
  qed
  have bound: "\<bar>real m * 2 powi e - q\<bar> \<le> q / 2 ^ 53"
  proof -
    have "2 powi k / 2 ^ 53 \<le> q / 2 ^ 53" using k_lo by (simp add: divide_right_mono)
    with x_err half show ?thesis by simp
  qed
  have m_hi: "m \<le> 2 ^ 53"
  proof -
    have "q / 2 powi e < 2 powi (k + 1) / 2 powi e"
      using k_hi P by (simp add: divide_strict_right_mono)
    also have "\<dots> = 2 powi (k + 1 - e)" by (simp add: power_int_diff)
    also have "\<dots> = 2 ^ 53" by (simp add: e_def)
    finally have "q / 2 powi e < 2 ^ 53" .
    with err have "real m < 2 ^ 53 + 1" by linarith
    then have "real m < real (2 ^ 53 + 1)" by simp
    then have "m < 2 ^ 53 + 1" by (simp only: of_nat_less_iff)
    then show ?thesis by simp
  qed
  have "m < 2 ^ 54"
  proof -
    have "(2::nat) ^ 53 < 2 ^ 54" by simp
    with m_hi show ?thesis by linarith
  qed
  then have "bit_length m \<le> 54" by (rule bit_length_le)
  with k_le have no_ovf: "\<not> 1024 < int (bit_length m) + e" by (simp add: e_def)
  have "nearest_double s num den =
      (if 1024 < int (bit_length m) + e then Infinite s else Finite s m e)"
    using num unfolding nearest_double_def Let_def m_def e_eq[symmetric] k_def k0_def by simp
  with no_ovf have "nearest_double s num den = Finite s m e" by simp
  with bound show ?thesis unfolding q_def by blast
qed

lemma pow_nat_scale: "real (n * 2 ^ nat j) / real (2 ^ nat (- j)) = real n * 2 powi j"
proof -
  have "real (n * 2 ^ nat j) / real (2 ^ nat (- j)) =
        real n * (real (2 ^ nat j) / real (2 ^ nat (- j)))"
    by simp
  then show ?thesis by (simp only: pow_nat_ratio)
qed

lemma format_2f_finite:
  "\<exists>cents. format_2f (Finite s m e) =
       (if s then ''-'' else []) @ nat_digits (cents div 100) @ ''.'' @
       [digit_char (cents mod 100 div 10), digit_char (cents mod 10)] \<and>
     \<bar>real cents - 100 * (real m * 2 powi e)\<bar> \<le> 1 / 2"
proof -
  let ?cents = "round_half_even (m * 100 * 2 ^ nat e) (2 ^ nat (- e))"
  have "\<bar>real ?cents - real (m * 100 * 2 ^ nat e) / real (2 ^ nat (- e))\<bar> \<le> 1 / 2"
    by (rule round_half_even_error) simp
  then have "\<bar>real ?cents - real (m * 100) * 2 powi e\<bar> \<le> 1 / 2"
    by (simp only: pow_nat_scale)
  moreover have "real (m * 100) * 2 powi e = 100 * (real m * 2 powi e)" by simp
  ultimately have "\<bar>real ?cents - 100 * (real m * 2 powi e)\<bar> \<le> 1 / 2"
    by (simp only:)
  moreover have "format_2f (Finite s m e) =
       (if s then ''-'' else []) @ nat_digits (?cents div 100) @ ''.'' @
       [digit_char (?cents mod 100 div 10), digit_char (?cents mod 10)]"
    by (simp add: format_2f_def Let_def)
  ultimately show ?thesis by blast
qed

lemma percent_accuracy_pos:
  assumes c: "0 < c" and p: "0 < p" and cb: "c < 2 ^ N" and pb: "p < 2 ^ N" and N: "N \<le> 1000"
  shows "\<exists>m e cents. nearest_double s c p = Finite s m e \<and>
     format_2f (float_times (Finite s m e) 100) =
       (if s then ''-'' else []) @ nat_digits (cents div 100) @ ''.'' @
       [digit_char (cents mod 100 div 10), digit_char (cents mod 10)] \<and>
     \<bar>real cents / 100 - 100 * real c / real p\<bar> \<le> 1 / 200 + 100 * real c / real p / 2 ^ 51"
proof -
  define q where "q = real c / real p"
  have qpos: "0 < q" using c p by (simp add: q_def)
  have cN: "real c < 2 powi int N"
    using cb by (metis of_nat_less_iff of_nat_numeral of_nat_power power_int_of_nat)
  have pN: "real p < 2 powi int N"
    using pb by (metis of_nat_less_iff of_nat_numeral of_nat_power power_int_of_nat)
  have p1: "1 \<le> real p" using p by simp
  have c1: "1 \<le> real c" using c by simp
  have q_hi: "q < 2 powi int N"
  proof -
    have "q \<le> real c" unfolding q_def using p1 c by (simp add: field_simps)
    then show ?thesis using cN by (rule le_less_trans)
  qed
  have q_lo: "2 powi (- int N) \<le> q"
  proof -
    have "1 / 2 powi int N \<le> 1 / real p"
      using pN p by (intro divide_left_mono) simp_all
    also have "\<dots> \<le> q" unfolding q_def using c1 p by (simp add: field_simps)
    finally show ?thesis by (simp add: power_int_minus field_simps)
  qed
  from nearest_double_normal[of c p "- int N" "int N" s, OF c p] q_lo q_hi N
  obtain m e where x: "nearest_double s c p = Finite s m e"
    and xe: "\<bar>real m * 2 powi e - q\<bar> \<le> q / 2 ^ 53"
    unfolding q_def by auto
  define x where "x = real m * 2 powi e"
  have xe': "\<bar>x - q\<bar> \<le> q / 2 ^ 53" using xe by (simp only: x_def)
  have xe2: "\<bar>x - q\<bar> \<le> q / 9007199254740992" using xe' by simp
  have xpos: "0 < x" using xe2 qpos by linarith
  have mpos: "0 < m"
  proof (rule ccontr)
    assume "\<not> 0 < m"
    then have "x = 0" by (simp add: x_def)
    with xpos show False by simp
  qed
  let ?num = "m * 100 * 2 ^ nat e" and ?den = "(2::nat) ^ nat (- e)"
  have ft: "float_times (Finite s m e) 100 = nearest_double s ?num ?den"
    by (simp add: float_times_def)
  have ratio: "real ?num / real ?den = 100 * x"
  proof -
    have "real ?num / real ?den = real (m * 100) * 2 powi e" by (rule pow_nat_scale)
    then show ?thesis by (simp add: x_def)
  qed
  have numpos: "0 < ?num" using mpos by simp
  have denpos: "0 < ?den" by simp
  have x_lo: "q \<le> 100 * x" using xe2 qpos by linarith
  have x_hi: "100 * x \<le> 256 * q" using xe2 qpos by linarith
  have r_lo: "2 powi (- int N) \<le> real ?num / real ?den"
    using q_lo x_lo by (simp only: ratio)
  have r_hi: "real ?num / real ?den < 2 powi (int N + 8)"
  proof -
    have "256 * q < 256 * 2 powi int N" using q_hi by simp
    also have "\<dots> = 2 powi 8 * 2 powi int N" by simp
    also have "\<dots> = 2 powi (8 + int N)" by (simp add: power_int_add)
    finally have "256 * q < 2 powi (int N + 8)" by (simp only: add.commute)
    with x_hi have "100 * x < 2 powi (int N + 8)" by (rule le_less_trans)
    then show ?thesis by (simp only: ratio)
  qed
  from nearest_double_normal[of ?num ?den "- int N" "int N + 8" s, OF numpos denpos r_lo _ r_hi] N
  obtain m' e' where y: "nearest_double s ?num ?den = Finite s m' e'"
    and ye: "\<bar>real m' * 2 powi e' - 100 * x\<bar> \<le> 100 * x / 2 ^ 53"
    unfolding ratio by auto
  define y where "y = real m' * 2 powi e'"
  have ye': "\<bar>y - 100 * x\<bar> \<le> 100 * x / 2 ^ 53" using ye by (simp only: y_def)
  from format_2f_finite[of s m' e'] obtain cents where
    fmt: "format_2f (Finite s m' e') =
       (if s then ''-'' else []) @ nat_digits (cents div 100) @ ''.'' @
       [digit_char (cents mod 100 div 10), digit_char (cents mod 10)]"
    and ce: "\<bar>real cents - 100 * y\<bar> \<le> 1 / 2"
    unfolding y_def by blast
  have ye2: "\<bar>y - 100 * x\<bar> \<le> 100 * x / 9007199254740992" using ye' by simp
  have "\<bar>real cents / 100 - 100 * q\<bar> \<le> 1 / 200 + 100 * q / 2251799813685248"
    using ce ye2 xe2 qpos by linarith
  then have "\<bar>real cents / 100 - 100 * q\<bar> \<le> 1 / 200 + 100 * q / 2 ^ 51"
    by simp
  then have "\<bar>real cents / 100 - 100 * real c / real p\<bar> \<le>
      1 / 200 + 100 * real c / real p / 2 ^ 51"
    by (simp add: q_def)
  with x fmt ft y show ?thesis by auto
qed

lemma digit_val_digit_char: "d < 10 \<Longrightarrow> digit_val (digit_char d) = Some d"
proof -
  assume "d < 10"
  then have "d = 0 \<or> d = 1 \<or> d = 2 \<or> d = 3 \<or> d = 4 \<or> d = 5 \<or> d = 6 \<or> d = 7 \<or> d = 8 \<or> d = 9"
    by arith
  then show ?thesis
    by (elim disjE) (simp_all add: digit_char_def digit_val_def)
qed

lemma digit_val_not_punct: "digit_val ch = Some d \<Longrightarrow> ch \<noteq> CHR ''.'' \<and> ch \<noteq> CHR ''-''"
  by (auto simp: digit_val_def)

lemma digits_val_append:
  "digits_val acc (xs @ ys) =
     (case digits_val acc xs of None \<Rightarrow> None | Some n \<Rightarrow> digits_val n ys)"
  by (induction xs arbitrary: acc) (auto split: option.splits)

lemma digits_val_nat_digits: "digits_val 0 (nat_digits n) = Some n"
proof (induction n rule: nat_digits.induct)
  case (1 n)
  show ?case
  proof (cases "n < 10")
    case True
    then show ?thesis
      by (subst nat_digits.simps) (simp add: digit_val_digit_char)
  next
    case False
    have d: "digit_val (digit_char (n mod 10)) = Some (n mod 10)"
      by (rule digit_val_digit_char) simp
    have "nat_digits n = nat_digits (n div 10) @ [digit_char (n mod 10)]"
      using False by (subst nat_digits.simps) simp
    then show ?thesis
      using "1.IH"[OF False] d by (simp add: digits_val_append)
  qed
qed

lemma nat_digits_all_digits: "ch \<in> set (nat_digits n) \<Longrightarrow> \<exists>d. digit_val ch = Some d"
proof (induction n rule: nat_digits.induct)
  case (1 n)
  show ?case
  proof (cases "n < 10")
    case True
    with "1.prems" have "ch = digit_char n" by (subst (asm) nat_digits.simps) simp
    with True show ?thesis by (simp add: digit_val_digit_char)
  next
    case False
    with "1.prems" have "ch \<in> set (nat_digits (n div 10)) \<or> ch = digit_char (n mod 10)"
      by (subst (asm) nat_digits.simps) auto
    then show ?thesis
    proof
      assume "ch \<in> set (nat_digits (n div 10))"
      then show ?thesis using "1.IH"[OF False] by simp
    next
      assume "ch = digit_char (n mod 10)"
      then show ?thesis by (simp add: digit_val_digit_char)
    qed
  qed
qed

lemma nat_digits_nonempty: "nat_digits n \<noteq> []"
  by (subst nat_digits.simps) simp

lemma read_percent_format:
  assumes "a < 10" "b < 10"
  shows "read_percent ((if s then ''-'' else []) @ nat_digits w @ ''.'' @
           [digit_char a, digit_char b] @ ''%'') = Some (s, 100 * w + 10 * a + b)"
proof -
  let ?ds = "nat_digits w"
  let ?tail = "''.'' @ [digit_char a, digit_char b] @ ''%''"
  let ?t = "(if s then ''-'' else []) @ ?ds @ ?tail"
  have nodot: "\<And>ch. ch \<in> set ?ds \<Longrightarrow> ch \<noteq> CHR ''.''"
    using nat_digits_all_digits digit_val_not_punct by blast
  obtain c0 cs where ds: "?ds = c0 # cs" using nat_digits_nonempty[of w] by (cases ?ds) auto
  then have "c0 \<in> set ?ds" by simp
  then have c0: "c0 \<noteq> CHR ''-''" using nat_digits_all_digits digit_val_not_punct by blast
  have neg: "(take 1 ?t = ''-'') = s" using ds c0 by simp
  have body: "(if s then drop 1 ?t else ?t) = ?ds @ ?tail" by simp
  have whole: "takeWhile (\<lambda>c. c \<noteq> CHR ''.'') (?ds @ ?tail) = ?ds"
    using nodot by (simp add: takeWhile_append2)
  have rest: "dropWhile (\<lambda>c. c \<noteq> CHR ''.'') (?ds @ ?tail) = ?tail"
    using nodot by (simp add: dropWhile_append2)
  show ?thesis
    unfolding read_percent_def Let_def neg body whole rest
    using assms nat_digits_nonempty[of w]
    by (simp add: digits_val_nat_digits digit_val_digit_char)
qed


lemma cents_split: "100 * (n div 100) + 10 * (n mod 100 div 10) + n mod 10 = (n::nat)"
proof -
  have a: "n mod 100 mod 10 = n mod 10" by (simp add: mod_mod_cancel)
  have b: "10 * (n mod 100 div 10) + n mod 100 mod 10 = n mod 100" by (rule mult_div_mod_eq)
  have c: "100 * (n div 100) + n mod 100 = n" by (rule mult_div_mod_eq)
  from a b c show ?thesis by linarith
qed

lemma percent_accuracy_zero:
  "nearest_double s 0 p = Finite s 0 0 \<and>
   format_2f (float_times (Finite s 0 0) 100) =
     (if s then ''-'' else []) @ nat_digits (0 div 100) @ ''.'' @
     [digit_char (0 mod 100 div 10), digit_char (0 mod 10)]"
  by (simp add: nearest_double_def float_times_def format_2f_def round_half_even_def)

lemma percent_accuracy:
  assumes p: "0 < p" and cb: "c < 2 ^ 1000" and pb: "p < 2 ^ 1000"
  shows "\<exists>x cents. nearest_double s c p = x \<and> (\<forall>s'. x \<noteq> Infinite s') \<and>
     read_percent (format_2f (float_times x 100) @ ''%'') = Some (s, cents) \<and>
     \<bar>real cents / 100 - 100 * real c / real p\<bar> \<le> 1 / 200 + 100 * real c / real p / 2 ^ 51"
proof (cases "c = 0")
  case True
  have "read_percent (format_2f (float_times (Finite s 0 0) 100) @ ''%'') = Some (s, 0)"
    using read_percent_format[of 0 0 s 0] percent_accuracy_zero[of s p] by simp
  with True percent_accuracy_zero[of s p] show ?thesis by simp
next
  case False
  then have c: "0 < c" by simp
  from percent_accuracy_pos[OF c p cb pb, of s] obtain m e cents where
    x: "nearest_double s c p = Finite s m e"
    and fmt: "format_2f (float_times (Finite s m e) 100) =
       (if s then ''-'' else []) @ nat_digits (cents div 100) @ ''.'' @
       [digit_char (cents mod 100 div 10), digit_char (cents mod 10)]"
    and err: "\<bar>real cents / 100 - 100 * real c / real p\<bar> \<le>
       1 / 200 + 100 * real c / real p / 2 ^ 51"
    by auto
  have "read_percent (format_2f (float_times (Finite s m e) 100) @ ''%'') =
      Some (s, 100 * (cents div 100) + 10 * (cents mod 100 div 10) + cents mod 10)"
    unfolding fmt using read_percent_format[of "cents mod 100 div 10" "cents mod 10" s "cents div 100"]
    by simp
  then have "read_percent (format_2f (float_times (Finite s m e) 100) @ ''%'') = Some (s, cents)"
    by (simp only: cents_split)
  with x err show ?thesis by simp
qed

lemma nat_abs_less: "\<bar>c\<bar> < 2 ^ n \<Longrightarrow> nat \<bar>c\<bar> < 2 ^ n"
  by (simp add: nat_less_iff)

lemma high_exposure_percent_accuracy:
  assumes pop: "getitem (h a) population_key = Inr (IntV p)" and p: "p \<noteq> 0"
    and cb: "\<bar>c\<bar> < 2 ^ 1000" and pb: "\<bar>p\<bar> < 2 ^ 1000"
  shows "\<exists>t cents. high_exposure_percent h a (IntV c) = Inr t \<and>
           read_percent t = Some ((c < 0) \<noteq> (p < 0), cents) \<and>
           \<bar>real cents / 100 - \<bar>100 * real_of_int c / real_of_int p\<bar>\<bar>
             \<le> 1 / 200 + \<bar>100 * real_of_int c / real_of_int p\<bar> / 2 ^ 51"
proof -
  let ?s = "(c < 0) \<noteq> (p < 0)"
  have p': "0 < nat \<bar>p\<bar>" using p by simp
  from percent_accuracy[OF p' nat_abs_less[OF cb] nat_abs_less[OF pb], of ?s]
  obtain x cents where x: "nearest_double ?s (nat \<bar>c\<bar>) (nat \<bar>p\<bar>) = x"
    and fin: "\<forall>s'. x \<noteq> Infinite s'"
    and rd: "read_percent (format_2f (float_times x 100) @ ''%'') = Some (?s, cents)"
    and err: "\<bar>real cents / 100 - 100 * real (nat \<bar>c\<bar>) / real (nat \<bar>p\<bar>)\<bar>
       \<le> 1 / 200 + 100 * real (nat \<bar>c\<bar>) / real (nat \<bar>p\<bar>) / 2 ^ 51"
    by blast
  from fin obtain s m e where fx: "x = Finite s m e" by (cases x) auto
  have div: "int_true_divide c p = Inr x"
    using p x fx by (simp add: int_true_divide_def)
  have pc: "high_exposure_percent h a (IntV c) = Inr (format_2f (float_times x 100) @ ''%'')"
    using pop div by (simp add: high_exposure_percent_def)
  have abs_eq: "100 * real (nat \<bar>c\<bar>) / real (nat \<bar>p\<bar>) = \<bar>100 * real_of_int c / real_of_int p\<bar>"
    by (simp add: abs_mult)
  from err have "\<bar>real cents / 100 - \<bar>100 * real_of_int c / real_of_int p\<bar>\<bar>
             \<le> 1 / 200 + \<bar>100 * real_of_int c / real_of_int p\<bar> / 2 ^ 51"
    by (simp only: abs_eq)
  with pc rd show ?thesis by blast
qed

section \<open>The example datasets, evaluated\<close>

lemma int_of_str_examples:
  "int_of_str ''A'' = Inl ValueError" "int_of_str ''100'' = Inr 100"
  "int_of_str ''5'' = Inr 5" "int_of_str ''999'' = Inr 999"
  by (simp_all add: int_of_str_def strip_def is_space_def digit_val_def)

lemma example_rows_0: 
  "wf_row (example_rows 0)" "raw_row (example_rows 0)"
  "getitem (example_rows 0) location_key = Inr (StrV ''A'')"
  "StrV ''A'' \<noteq> StrV major_sources"
  by (simp_all add: example_rows_def wf_row_def raw_row_def location_key_def major_sources_def)

lemma example_clean_0: "clean example_rows 0 = Inr (example_rows(0 := example_cleaned), Some 0)"
proof -
  have "map clean_item (example_rows 0) = example_cleaned"
    by (simp add: example_rows_def example_cleaned_def clean_item_def clean_value_def
        int_of_str_examples int_of_str_na)
  then show ?thesis
    using clean_kept[of example_rows 0 "StrV ''A''"] example_rows_0
    by (simp add: raw_row_no_None)
qed

lemma example_build: "build example_rows [0, 1] = Inr (example_rows(0 := example_cleaned), [0])"
proof -
  have 1: "clean (example_rows(0 := example_cleaned)) 1 = Inr (example_rows(0 := example_cleaned), None)"
    by (rule clean_dropped) (simp add: example_rows_def location_key_def major_sources_def)
  from 1 show ?thesis
    by (simp add: build_def example_clean_0) (simp add: example_cleaned_def)
qed

lemmas key_defs = location_key_def population_key_def industry_key_def railways_key_def
  road_key_def major_sources_def

lemma true_divide_10_100:
  "int_true_divide 10 100 = Inr (Finite False 7205759403792794 (- 56))"
  by (simp add: int_true_divide_def nearest_double_def round_half_even_def Let_def
      bit_length.simps)

lemma nearest_double_10:
  "nearest_double False 720575940379279400 72057594037927936 =
     Finite False 5629499534213120 (- 49)"
  by (simp add: nearest_double_def round_half_even_def Let_def bit_length.simps)

lemma float_times_10:
  "float_times (Finite False 7205759403792794 (- 56)) 100 =
     Finite False 5629499534213120 (- 49)"
proof -
  have "(2::nat) ^ 56 = 72057594037927936" by simp
  then show ?thesis by (simp add: float_times_def nearest_double_10)
qed

lemma format_10: "format_2f (Finite False 5629499534213120 (- 49)) = ''10.00''"
  by (simp add: format_2f_def round_half_even_def Let_def nat_digits.simps digit_char_def)

lemma example_query:
  "query_cell (example_rows(0 := example_cleaned)) [0] = Inr example_queries"
  by (simp add: query_cell_def py_max_def py_min_def extremum_def example_cleaned_def
      example_queries_def population_key_def)

lemma example_fields:
  "getitem example_cleaned industry_key = Inr (IntV 0)"
  "getitem example_cleaned railways_key = Inr (IntV 5)"
  "getitem example_cleaned road_key = Inr (IntV 5)"
  "getitem example_cleaned population_key = Inr (IntV 100)"
  by (simp_all add: example_cleaned_def key_defs)

lemma zero_build: "build zero_rows [0] = Inr (zero_rows(0 := zero_cleaned), [0])"
proof -
  have 0: "int_of_str ''B'' = Inl ValueError" "int_of_str ''0'' = Inr 0"
    by (simp_all add: int_of_str_def strip_def is_space_def digit_val_def)
  have "map clean_item (zero_rows 0) = zero_cleaned"
    by (simp add: zero_rows_def zero_cleaned_def clean_item_def clean_value_def 0 int_of_str_na)
  moreover have "wf_row (zero_rows 0)" "raw_row (zero_rows 0)"
    "getitem (zero_rows 0) location_key = Inr (StrV ''B'')"
    by (simp_all add: zero_rows_def wf_row_def raw_row_def key_defs)
  ultimately have "clean zero_rows 0 = Inr (zero_rows(0 := zero_cleaned), Some 0)"
    using clean_kept[of zero_rows 0 "StrV ''B''"]
    by (simp add: raw_row_no_None major_sources_def)
  then show ?thesis by (simp add: build_def) (simp add: zero_cleaned_def)
qed

lemma zero_query:
  "query_cell (zero_rows(0 := zero_cleaned)) [0] = Inr example_queries"
  by (simp add: query_cell_def py_max_def py_min_def extremum_def zero_cleaned_def
      example_queries_def population_key_def)

lemma zero_figures:
  "figures_cell (zero_rows(0 := zero_cleaned)) example_queries = Inl ZeroDivisionError"
proof -
  have c: "high_exposure_count (zero_rows(0 := zero_cleaned)) 0 = Inr (IntV 0)"
    using high_exposure_count_ints[of "zero_rows(0 := zero_cleaned)" 0 0 0 0]
    by (simp add: zero_cleaned_def key_defs)
  have "high_exposure_percent (zero_rows(0 := zero_cleaned)) 0 (IntV 0) = Inl ZeroDivisionError"
    by (simp add: high_exposure_percent_def zero_cleaned_def population_key_def
        int_true_divide_def)
  with c show ?thesis by (simp add: figures_cell_def example_queries_def)
qed

lemma figures_cell_ints:
  assumes "getitem (h (most_populated q)) industry_key = Inr (IntV i)"
    and "getitem (h (most_populated q)) railways_key = Inr (IntV r)"
    and "getitem (h (most_populated q)) road_key = Inr (IntV d)"
    and "getitem (h (most_populated q)) population_key = Inr (IntV p)"
    and "getitem (h (least_populated q)) industry_key = Inr (IntV i')"
    and "getitem (h (least_populated q)) railways_key = Inr (IntV r')"
    and "getitem (h (least_populated q)) road_key = Inr (IntV d')"
    and "getitem (h (least_populated q)) population_key = Inr (IntV p')"
  shows "figures_cell h q =
     (case int_true_divide (i + r + d) p of
        Inl e \<Rightarrow> Inl e
      | Inr x \<Rightarrow>
          (case int_true_divide (i' + r' + d') p' of
             Inl e \<Rightarrow> Inl e
           | Inr x' \<Rightarrow>
               Inr \<lparr>most_populated_high_exposure_count = IntV (i + r + d),
                    most_populated_high_exposure_percent = format_2f (float_times x 100) @ ''%'',
                    least_populated_high_exposure_count = IntV (i' + r' + d'),
                    least_populated_high_exposure_percent =
                      format_2f (float_times x' 100) @ ''%''\<rparr>))"
proof -
  have mc: "high_exposure_count h (most_populated q) = Inr (IntV (i + r + d))"
    using assms(1-3) high_exposure_count_ints[of h "most_populated q" i r d] by simp
  have lc: "high_exposure_count h (least_populated q) = Inr (IntV (i' + r' + d'))"
    using assms(5-7) high_exposure_count_ints[of h "least_populated q" i' r' d'] by simp
  have mp: "high_exposure_percent h (most_populated q) (IntV (i + r + d)) =
     (case int_true_divide (i + r + d) p of
        Inl e \<Rightarrow> Inl e
      | Inr x \<Rightarrow> Inr (format_2f (float_times x 100) @ ''%''))"
    using assms(4) high_exposure_percent_ints[of h "most_populated q" p] by simp
  have lp: "high_exposure_percent h (least_populated q) (IntV (i' + r' + d')) =
     (case int_true_divide (i' + r' + d') p' of
        Inl e \<Rightarrow> Inl e
      | Inr x \<Rightarrow> Inr (format_2f (float_times x 100) @ ''%''))"
    using assms(8) high_exposure_percent_ints[of h "least_populated q" p'] by simp
  show ?thesis
    by (simp add: figures_cell_def mc lc mp lp split: sum.splits)
qed

lemma example_figures:
  "figures_cell (example_rows(0 := example_cleaned)) example_queries =
     Inr \<lparr>most_populated_high_exposure_count = IntV 10,
          most_populated_high_exposure_percent = ''10.00%'',
          least_populated_high_exposure_count = IntV 10,
          least_populated_high_exposure_percent = ''10.00%''\<rparr>"
  using figures_cell_ints[of "example_rows(0 := example_cleaned)" example_queries
      0 5 5 100 0 5 5 100]
  by (simp add: example_queries_def example_fields true_divide_10_100 float_times_10
      format_10)

lemma tie_query:
  "query_cell tie_rows [0, 1, 2, 3] =
     Inr \<lparr>columns = 2, rows = 4, most_populated = 1, least_populated = 0\<rparr>"
  by (simp add: query_cell_def py_max_def py_min_def extremum_def tie_rows_def
      population_key_def)

lemma true_divide_300:
  "int_true_divide 300 400000 = Inr (Finite False 6917529027641082 (- 63))"
  by (simp add: int_true_divide_def nearest_double_def round_half_even_def Let_def
      bit_length.simps)

lemma true_divide_big:
  "int_true_divide 150000000000000001 200000000000000000000 =
     Inr (Finite False 6917529027641082 (- 63))"
  by (simp add: int_true_divide_def nearest_double_def round_half_even_def Let_def
      bit_length.simps)

lemma nearest_double_7:
  "nearest_double False 691752902764108200 9223372036854775808 =
     Finite False 5404319552844595 (- 56)"
  by (simp add: nearest_double_def round_half_even_def Let_def bit_length.simps)

lemma float_times_7:
  "float_times (Finite False 6917529027641082 (- 63)) 100 =
     Finite False 5404319552844595 (- 56)"
proof -
  have "(2::nat) ^ 63 = 9223372036854775808" by simp
  then show ?thesis by (simp add: float_times_def nearest_double_7)
qed

lemma format_7: "format_2f (Finite False 5404319552844595 (- 56)) = ''0.07''"
  by (simp add: format_2f_def round_half_even_def Let_def nat_digits.simps digit_char_def)

lemma rounding_percent_0:
  "high_exposure_percent rounding_rows 0 (IntV 300) = Inr ''0.07%''"
  by (simp add: high_exposure_percent_def rounding_rows_def population_key_def
      true_divide_300 float_times_7 format_7)

lemma rounding_percent_1:
  "high_exposure_percent rounding_rows 1 (IntV 150000000000000001) = Inr ''0.07%''"
  by (simp add: high_exposure_percent_def rounding_rows_def population_key_def
      true_divide_big float_times_7 format_7)

lemma rounding_count:
  "high_exposure_count rounding_rows 0 = Inr (IntV 300)"
  "high_exposure_count rounding_rows 1 = Inr (IntV 150000000000000001)"
  by (simp_all add: high_exposure_count_def py_sum_def rounding_rows_def industry_key_def
      railways_key_def road_key_def)

lemma read_percent_7: "read_percent ''0.07%'' = Some (False, 7)"
  by (simp add: read_percent_def digit_val_def)

lemma read_percent_10: "read_percent ''10.00%'' = Some (False, 1000)"
  by (simp add: read_percent_def digit_val_def)

section \<open>Claims about cleaning and building\<close>

text \<open>
  Claim C1. A raw record whose \<^verbatim>\<open>'Location/Agglomeration'\<close> field is the string
  \<^verbatim>\<open>'Major sources (outside agglomerations)'\<close> makes \<^verbatim>\<open>clean\<close> return
  \<^verbatim>\<open>None\<close>, with the store as it was, and no dataset that the builder produces from
  a sequence of rows contains that record.
\<close>
theorem sentinel_row_dropped:
  assumes "getitem (h a) location_key = Inr (StrV major_sources)"
  shows "clean h a = Inr (h, None) \<and>
         (\<forall>reader h' data. build h reader = Inr (h', data) \<longrightarrow> a \<notin> set data)"
  using assms build_loop_not_in[of h a _ "[]"]
  by (auto simp: clean_dropped build_def)

theorem sentinel_row_dropped_witness:
  "getitem (example_rows 1) location_key = Inr (StrV major_sources) \<and>
   clean example_rows 1 = Inr (example_rows, None) \<and>
   build example_rows [0, 1] = Inr (example_rows(0 := example_cleaned), [0]) \<and>
   (1::nat) \<notin> set [0]"
proof -
  have h: "getitem (example_rows 1) location_key = Inr (StrV major_sources)"
    by (simp add: example_rows_def location_key_def major_sources_def)
  from sentinel_row_dropped[of example_rows 1] example_build h show ?thesis by simp
qed

text \<open>
  Claim C2. For a raw record that is not dropped, \<^verbatim>\<open>clean\<close> returns the record, and
  every field whose raw value is the marker \<^verbatim>\<open>'n/a'\<close> holds the integer 0 afterwards.
\<close>
theorem marker_becomes_zero:
  assumes "wf_row (h a)" "raw_row (h a)"
    and "getitem (h a) location_key = Inr loc" "loc \<noteq> StrV major_sources"
    and "getitem (h a) k = Inr (StrV ''n/a'')"
  shows "\<exists>h'. clean h a = Inr (h', Some a) \<and> getitem (h' a) k = Inr (IntV 0)"
  using assms clean_kept[of h a loc]
  by (simp add: raw_row_no_None getitem_map_clean clean_value_na)

theorem marker_becomes_zero_witness:
  "clean example_rows 0 = Inr (example_rows(0 := example_cleaned), Some 0) \<and>
   getitem example_cleaned ''Industry_Pop_Lden>=75dB'' = Inr (IntV 0)"
proof -
  have k: "getitem (example_rows 0) ''Industry_Pop_Lden>=75dB'' = Inr (StrV ''n/a'')"
    by (simp add: example_rows_def)
  from marker_becomes_zero[of example_rows 0, OF example_rows_0 k] show ?thesis
    by (simp add: example_clean_0)
qed

text \<open>
  Claim C3. For a raw record that is not dropped and any of its fields, the location
  field included: a raw string that \<^verbatim>\<open>int\<close> accepts is replaced by that integer; a
  raw string that \<^verbatim>\<open>int\<close> rejects and that is not the marker \<^verbatim>\<open>'n/a'\<close> stays
  as it is.
\<close>
theorem integer_coercion:
  assumes "wf_row (h a)" "raw_row (h a)"
    and "getitem (h a) location_key = Inr loc" "loc \<noteq> StrV major_sources"
    and "getitem (h a) k = Inr (StrV s)"
  shows "\<exists>h'. clean h a = Inr (h', Some a) \<and>
           (\<forall>n. int_of_str s = Inr n \<longrightarrow> getitem (h' a) k = Inr (IntV n)) \<and>
           ((\<forall>n. int_of_str s \<noteq> Inr n) \<and> s \<noteq> ''n/a'' \<longrightarrow> getitem (h' a) k = Inr (StrV s))"
  using assms clean_kept[of h a loc]
  by (auto simp add: raw_row_no_None getitem_map_clean clean_value_def split: sum.splits)

theorem integer_coercion_witness:
  "clean example_rows 0 = Inr (example_rows(0 := example_cleaned), Some 0) \<and>
   int_of_str ''100'' = Inr 100 \<and>
   getitem example_cleaned population_key = Inr (IntV 100) \<and>
   (\<forall>n. int_of_str ''A'' \<noteq> Inr n) \<and> ''A'' \<noteq> ''n/a'' \<and>
   getitem example_cleaned location_key = Inr (StrV ''A'')"
proof -
  have p: "getitem (example_rows 0) population_key = Inr (StrV ''100'')"
    and l: "getitem (example_rows 0) location_key = Inr (StrV ''A'')"
    by (simp_all add: example_rows_def population_key_def location_key_def)
  from integer_coercion[of example_rows 0, OF example_rows_0 p]
    integer_coercion[of example_rows 0, OF example_rows_0 l]
  show ?thesis
    by (simp add: example_clean_0 int_of_str_examples)
qed

text \<open>
  Claim C6. Given the raw records that the reader yields, each a dictionary of its own,
  the builder returns the kept records in the order of the input, each one holding
  exactly what \<^verbatim>\<open>clean\<close> makes of it, and leaves every other object as it was.
\<close>
theorem build_in_order:
  assumes "distinct reader"
    and "\<forall>a\<in>set reader. wf_row (h a) \<and> raw_row (h a) \<and> location_key \<in> fst ` set (h a)"
  shows "\<exists>h'. build h reader = Inr (h', filter (\<lambda>a. kept (h a)) reader) \<and>
           (\<forall>a\<in>set reader. kept (h a) \<longrightarrow> clean h a = Inr (h(a := h' a), Some a)) \<and>
           (\<forall>a. a \<notin> set reader \<or> \<not> kept (h a) \<longrightarrow> h' a = h a)"
proof -
  let ?h' = "\<lambda>b. if b \<in> set reader \<and> kept (h b) then map clean_item (h b) else h b"
  from assms(2) have ok:
    "\<forall>a\<in>set reader. wf_row (h a) \<and> NoneV \<notin> snd ` set (h a) \<and> location_key \<in> fst ` set (h a)"
    by (auto dest: raw_row_no_None)
  have b: "build h reader = Inr (?h', filter (\<lambda>a. kept (h a)) reader)"
    using build_loop_char[OF assms(1) ok, of "[]"] by (simp add: build_def)
  have "clean h a = Inr (h(a := ?h' a), Some a)" if "a \<in> set reader" "kept (h a)" for a
  proof -
    from ok that obtain loc where "getitem (h a) location_key = Inr loc"
      by (cases "getitem (h a) location_key") (auto simp: getitem_KeyError_iff)
    with that ok show ?thesis by (auto simp: kept_def clean_kept)
  qed
  with b show ?thesis by auto
qed

theorem build_in_order_witness:
  "distinct [0, 1::nat] \<and>
   build example_rows [0, 1] = Inr (example_rows(0 := example_cleaned), [0]) \<and>
   clean example_rows 0 = Inr (example_rows(0 := example_cleaned), Some 0)"
proof -
  have "\<forall>a\<in>set [0, 1::nat]. wf_row (example_rows a) \<and> raw_row (example_rows a) \<and>
          location_key \<in> fst ` set (example_rows a)"
    by (simp add: example_rows_def wf_row_def raw_row_def location_key_def)
  from build_in_order[of "[0, 1]" example_rows] this example_build example_clean_0
  show ?thesis by simp
qed

text \<open>
  Claim C7. Cleaning a record that is already clean (no marker \<^verbatim>\<open>'n/a'\<close>, no string
  that \<^verbatim>\<open>int\<close> accepts, a location other than the excluded one) returns the record
  with identical contents: the store does not change at all.
\<close>
theorem clean_idempotent:
  assumes "wf_row (h a)" "already_clean (h a)"
    and "getitem (h a) location_key = Inr loc" "loc \<noteq> StrV major_sources"
  shows "clean h a = Inr (h, Some a)"
  using assms clean_kept[of h a loc]
  by (simp add: already_clean_no_None already_clean_map)

theorem clean_idempotent_witness:
  "wf_row example_cleaned \<and> already_clean example_cleaned \<and>
   clean (example_rows(0 := example_cleaned)) 0 = Inr (example_rows(0 := example_cleaned), Some 0)"
proof -
  let ?h = "example_rows(0 := example_cleaned)"
  have 1: "wf_row (?h 0)" and 2: "already_clean (?h 0)"
    and 3: "getitem (?h 0) location_key = Inr (StrV ''A'')"
    by (simp_all add: example_cleaned_def wf_row_def already_clean_def location_key_def
        int_of_str_examples)
  from clean_idempotent[of ?h 0, OF 1 2 3] 1 2 show ?thesis
    by (simp add: major_sources_def)
qed

text \<open>
  Claim C9, as stated: \<^verbatim>\<open>clean\<close> does not mutate the record mapping it is given. It
  does: after cleaning the first example row, the caller's dictionary at address 0 holds
  the cleaned contents.
\<close>

theorem clean_mutates_row:
  "clean example_rows 0 = Inr (example_rows(0 := example_cleaned), Some 0) \<and>
   (example_rows(0 := example_cleaned)) 0 \<noteq> example_rows 0"
  by (simp add: example_clean_0) (simp add: example_rows_def example_cleaned_def)

text \<open>
  Claim C9, amended. \<^verbatim>\<open>clean\<close> works in place: it returns \<^verbatim>\<open>None\<close> or the very
  dictionary it was given, it changes no other object in the store, and when it returns
  \<^verbatim>\<open>None\<close> it changes nothing at all.
\<close>

theorem clean_frame_rule:
  assumes "clean h a = Inr (h', ret)"
  shows "(\<forall>b. b \<noteq> a \<longrightarrow> h' b = h b) \<and> (ret = None \<or> ret = Some a) \<and> (ret = None \<longrightarrow> h' = h)"
  using clean_frame[of h a h' ret] assms by simp

theorem clean_frame_rule_witness:
  "clean example_rows 0 = Inr (example_rows(0 := example_cleaned), Some 0) \<and>
   (example_rows(0 := example_cleaned)) 1 = example_rows 1 \<and>
   Some (0::nat) \<noteq> None"
  using clean_frame_rule[of example_rows 0, OF example_clean_0] by (simp add: example_clean_0)

text \<open>
  Claim C10. A record without the key \<^verbatim>\<open>'Location/Agglomeration'\<close> makes
  \<^verbatim>\<open>clean\<close> raise \<^verbatim>\<open>KeyError\<close> for that key; with the key present the lookup
  succeeds and \<^verbatim>\<open>clean\<close> raises no \<^verbatim>\<open>KeyError\<close> at all.
\<close>
theorem location_key_required:
  "(location_key \<notin> fst ` set (h a) \<longrightarrow> clean h a = Inl (KeyError location_key)) \<and>
   (location_key \<in> fst ` set (h a) \<longrightarrow>
      (\<exists>loc. getitem (h a) location_key = Inr loc) \<and> (\<forall>k. clean h a \<noteq> Inl (KeyError k)))"
proof (intro conjI impI)
  assume "location_key \<notin> fst ` set (h a)"
  then have "getitem (h a) location_key = Inl (KeyError location_key)"
    by (simp add: getitem_KeyError_iff)
  then show "clean h a = Inl (KeyError location_key)" by (simp add: clean_row)
next
  assume "location_key \<in> fst ` set (h a)"
  then show "\<exists>loc. getitem (h a) location_key = Inr loc"
    by (cases "getitem (h a) location_key") (auto simp: getitem_KeyError_iff)
  then show "\<forall>k. clean h a \<noteq> Inl (KeyError k)"
    by (auto simp: clean_row split: sum.splits dest: row_loop_error)
qed

theorem location_key_required_witness:
  "location_key \<notin> fst ` set [(population_key, StrV ''999'')] \<and>
   clean (\<lambda>a. [(population_key, StrV ''999'')]) 0 = Inl (KeyError location_key) \<and>
   location_key \<in> fst ` set (example_rows 0) \<and>
   getitem (example_rows 0) location_key = Inr (StrV ''A'') \<and>
   clean example_rows 0 = Inr (example_rows(0 := example_cleaned), Some 0)"
  using location_key_required[of "\<lambda>a. [(population_key, StrV ''999'')]" 0]
    location_key_required[of example_rows 0]
  by (simp add: example_clean_0) (simp add: example_rows_def location_key_def population_key_def)

section \<open>Claims about the queries and the figures\<close>

text \<open>
  Claim C4. Over a non-empty dataset whose population fields are integers, the query cell
  succeeds, and each of the two selected records is the earliest one with the extremal
  population: every record before \<open>most_populated\<close> has a strictly smaller population
  and none after it a larger one; every record before \<open>least_populated\<close> has a strictly
  larger population and none after it a smaller one.
\<close>

theorem stable_extremal_selection:
  assumes "data \<noteq> []"
    and "\<forall>a\<in>set data. getitem (h a) population_key = Inr (IntV (pop a))"
  shows "\<exists>q pre post pre' post'. query_cell h data = Inr q \<and>
           data = pre @ most_populated q # post \<and>
           (\<forall>a\<in>set pre. pop a < pop (most_populated q)) \<and>
           (\<forall>a\<in>set post. pop a \<le> pop (most_populated q)) \<and>
           data = pre' @ least_populated q # post' \<and>
           (\<forall>a\<in>set pre'. pop (least_populated q) < pop a) \<and>
           (\<forall>a\<in>set post'. pop (least_populated q) \<le> pop a)"
proof -
  from py_max_ints[of data h population_key pop, OF assms] obtain mp pre post where
    mp: "py_max h population_key data = Inr mp" "data = pre @ mp # post"
      "\<forall>a\<in>set pre. pop a < pop mp" "\<forall>a\<in>set post. pop a \<le> pop mp"
    by (elim exE conjE)
  from py_min_ints[of data h population_key pop, OF assms] obtain lp pre' post' where
    lp: "py_min h population_key data = Inr lp" "data = pre' @ lp # post'"
      "\<forall>a\<in>set pre'. pop lp < pop a" "\<forall>a\<in>set post'. pop lp \<le> pop a"
    by (elim exE conjE)
  let ?q = "\<lparr>columns = length (h (hd data)), rows = length data,
             most_populated = mp, least_populated = lp\<rparr>"
  have "query_cell h data = Inr ?q"
    using assms(1) mp(1) lp(1) by (cases data) (simp_all add: query_cell_def)
  moreover have "data = pre @ most_populated ?q # post" using mp(2) by simp
  moreover have "data = pre' @ least_populated ?q # post'" using lp(2) by simp
  ultimately show ?thesis using mp(3,4) lp(3,4)
    by (intro exI[of _ ?q] exI[of _ pre] exI[of _ post] exI[of _ pre'] exI[of _ post']) simp
qed

theorem stable_extremal_selection_witness:
  "[0, 1, 2, 3::nat] \<noteq> [] \<and>
   query_cell tie_rows [0, 1, 2, 3] =
     Inr \<lparr>columns = 2, rows = 4, most_populated = 1, least_populated = 0\<rparr> \<and>
   tie_pop 1 = 9 \<and> tie_pop 2 = 9 \<and> tie_pop 0 = 5 \<and> tie_pop 3 = 5"
proof -
  have "\<forall>a\<in>set [0, 1, 2, 3]. getitem (tie_rows a) population_key = Inr (IntV (tie_pop a))"
    by (simp add: tie_rows_def tie_pop_def population_key_def)
  from stable_extremal_selection[of "[0, 1, 2, 3]" tie_rows tie_pop] this tie_query
  show ?thesis by (simp add: tie_pop_def)
qed

text \<open>
  Claim C5, as stated: the percentage is (exposure sum / population) * 100 at two
  decimal places. The quotient and the product are floats, so the text is not always
  the exact value at two decimals. Of 400000 inhabitants, 300 are exactly 0.075 percent,
  which the format \<^verbatim>\<open>.2f\<close> would print as \<^verbatim>\<open>0.08\<close>; the cell prints
  \<^verbatim>\<open>0.07%\<close>. For the second record the exact value is above 0.075, more than half
  a hundredth from what is printed, which is \<^verbatim>\<open>0.07%\<close> again.
\<close>

theorem percent_not_exactly_rounded:
  "high_exposure_count rounding_rows 0 = Inr (IntV 300) \<and>
   getitem (rounding_rows 0) population_key = Inr (IntV 400000) \<and>
   high_exposure_percent rounding_rows 0 (IntV 300) = Inr ''0.07%'' \<and>
   read_percent ''0.07%'' = Some (False, 7) \<and>
   (300 / 400000 * 100 :: real) = 75 / 1000 \<and>
   round_half_even (300 * 100 * 100) 400000 = 8 \<and>
   high_exposure_count rounding_rows 1 = Inr (IntV 150000000000000001) \<and>
   getitem (rounding_rows 1) population_key = Inr (IntV 200000000000000000000) \<and>
   high_exposure_percent rounding_rows 1 (IntV 150000000000000001) = Inr ''0.07%'' \<and>
   (7 / 100 + 1 / 200 :: real) < 150000000000000001 / 200000000000000000000 * 100"
proof -
  have a: "getitem (rounding_rows 0) population_key = Inr (IntV 400000)"
    by (simp add: rounding_rows_def population_key_def)
  have b: "getitem (rounding_rows 1) population_key = Inr (IntV 200000000000000000000)"
    by (simp add: rounding_rows_def population_key_def)
  have c: "(300 / 400000 * 100 :: real) = 75 / 1000" by simp
  have d: "round_half_even (300 * 100 * 100) 400000 = 8"
    by (simp add: round_half_even_def)
  have e: "(7 / 100 + 1 / 200 :: real) < 150000000000000001 / 200000000000000000000 * 100"
    by simp
  show ?thesis
    by (intro conjI rounding_count rounding_percent_0 rounding_percent_1 read_percent_7
        a b c d e)
qed

text \<open>
  Claim C5, amended. When the exposure and population fields of the two selected records
  are integers below \<open>2 ^ 1000\<close> in absolute value and the populations are not 0,
  the figures cell succeeds; each exposure count is the sum of the three fields of its
  record; each percentage is a text that reads as the sign of the quotient and a number
  of hundredths, and that number differs from the exact value of (exposure sum /
  population) * 100 by at most half a hundredth plus the fraction \<open>1 / 2 ^ 51\<close> of
  the exact value. The sum \<open>0 + 5 + 5 = 10\<close> over a population of 100, the record
  selected in the example dataset, is printed as \<^verbatim>\<open>10.00%\<close>.
\<close>

theorem exposure_figures:
  assumes "getitem (h (most_populated q)) industry_key = Inr (IntV i)"
    and "getitem (h (most_populated q)) railways_key = Inr (IntV r)"
    and "getitem (h (most_populated q)) road_key = Inr (IntV d)"
    and "getitem (h (most_populated q)) population_key = Inr (IntV p)"
    and "getitem (h (least_populated q)) industry_key = Inr (IntV i')"
    and "getitem (h (least_populated q)) railways_key = Inr (IntV r')"
    and "getitem (h (least_populated q)) road_key = Inr (IntV d')"
    and "getitem (h (least_populated q)) population_key = Inr (IntV p')"
    and "p \<noteq> 0" "p' \<noteq> 0"
    and "\<bar>i + r + d\<bar> < 2 ^ 1000" "\<bar>p\<bar> < 2 ^ 1000"
    and "\<bar>i' + r' + d'\<bar> < 2 ^ 1000" "\<bar>p'\<bar> < 2 ^ 1000"
  shows "(\<exists>fg cents cents'. figures_cell h q = Inr fg \<and>
     most_populated_high_exposure_count fg = IntV (i + r + d) \<and>
     least_populated_high_exposure_count fg = IntV (i' + r' + d') \<and>
     read_percent (most_populated_high_exposure_percent fg) =
       Some ((i + r + d < 0) \<noteq> (p < 0), cents) \<and>
     \<bar>real cents / 100 - \<bar>real_of_int (i + r + d) / real_of_int p * 100\<bar>\<bar>
       \<le> 1 / 200 + \<bar>real_of_int (i + r + d) / real_of_int p * 100\<bar> / 2 ^ 51 \<and>
     read_percent (least_populated_high_exposure_percent fg) =
       Some ((i' + r' + d' < 0) \<noteq> (p' < 0), cents') \<and>
     \<bar>real cents' / 100 - \<bar>real_of_int (i' + r' + d') / real_of_int p' * 100\<bar>\<bar>
       \<le> 1 / 200 + \<bar>real_of_int (i' + r' + d') / real_of_int p' * 100\<bar> / 2 ^ 51) \<and>
   getitem ((example_rows(0 := example_cleaned)) (most_populated example_queries))
     population_key = Inr (IntV 100) \<and>
   high_exposure_count (example_rows(0 := example_cleaned)) (most_populated example_queries) =
     Inr (IntV (0 + 5 + 5)) \<and>
   high_exposure_percent (example_rows(0 := example_cleaned)) (most_populated example_queries)
     (IntV (0 + 5 + 5)) = Inr ''10.00%''"
proof -
  have mc: "high_exposure_count h (most_populated q) = Inr (IntV (i + r + d))"
    using assms(1-3) high_exposure_count_ints[of h "most_populated q" i r d] by simp
  have lc: "high_exposure_count h (least_populated q) = Inr (IntV (i' + r' + d'))"
    using assms(5-7) high_exposure_count_ints[of h "least_populated q" i' r' d'] by simp
  from high_exposure_percent_accuracy[of h "most_populated q" p "i + r + d",
      OF assms(4) assms(9) assms(11) assms(12)]
  obtain t cents where t: "high_exposure_percent h (most_populated q) (IntV (i + r + d)) = Inr t"
    and rt: "read_percent t = Some ((i + r + d < 0) \<noteq> (p < 0), cents)"
    and et: "\<bar>real cents / 100 - \<bar>100 * real_of_int (i + r + d) / real_of_int p\<bar>\<bar>
             \<le> 1 / 200 + \<bar>100 * real_of_int (i + r + d) / real_of_int p\<bar> / 2 ^ 51"
    by blast
  from high_exposure_percent_accuracy[of h "least_populated q" p' "i' + r' + d'",
      OF assms(8) assms(10) assms(13) assms(14)]
  obtain t' cents' where
    t': "high_exposure_percent h (least_populated q) (IntV (i' + r' + d')) = Inr t'"
    and rt': "read_percent t' = Some ((i' + r' + d' < 0) \<noteq> (p' < 0), cents')"
    and et': "\<bar>real cents' / 100 - \<bar>100 * real_of_int (i' + r' + d') / real_of_int p'\<bar>\<bar>
             \<le> 1 / 200 + \<bar>100 * real_of_int (i' + r' + d') / real_of_int p'\<bar> / 2 ^ 51"
    by blast
  let ?fg = "\<lparr>most_populated_high_exposure_count = IntV (i + r + d),
              most_populated_high_exposure_percent = t,
              least_populated_high_exposure_count = IntV (i' + r' + d'),
              least_populated_high_exposure_percent = t'\<rparr>"
  have fc: "figures_cell h q = Inr ?fg"
    by (simp add: figures_cell_def mc lc t t')
  have sw: "\<And>x y :: real. x / y * 100 = 100 * x / y" by simp
  have general: "\<exists>fg cents cents'. figures_cell h q = Inr fg \<and>
     most_populated_high_exposure_count fg = IntV (i + r + d) \<and>
     least_populated_high_exposure_count fg = IntV (i' + r' + d') \<and>
     read_percent (most_populated_high_exposure_percent fg) =
       Some ((i + r + d < 0) \<noteq> (p < 0), cents) \<and>
     \<bar>real cents / 100 - \<bar>real_of_int (i + r + d) / real_of_int p * 100\<bar>\<bar>
       \<le> 1 / 200 + \<bar>real_of_int (i + r + d) / real_of_int p * 100\<bar> / 2 ^ 51 \<and>
     read_percent (least_populated_high_exposure_percent fg) =
       Some ((i' + r' + d' < 0) \<noteq> (p' < 0), cents') \<and>
     \<bar>real cents' / 100 - \<bar>real_of_int (i' + r' + d') / real_of_int p' * 100\<bar>\<bar>
       \<le> 1 / 200 + \<bar>real_of_int (i' + r' + d') / real_of_int p' * 100\<bar> / 2 ^ 51"
    unfolding sw using fc rt et rt' et'
    by (intro exI[of _ ?fg] exI[of _ cents] exI[of _ cents']) simp
  have ex_pop: "getitem ((example_rows(0 := example_cleaned)) (most_populated example_queries))
     population_key = Inr (IntV 100)"
    by (simp add: example_queries_def example_fields)
  have ex_count: "high_exposure_count (example_rows(0 := example_cleaned))
     (most_populated example_queries) = Inr (IntV (0 + 5 + 5))"
    using high_exposure_count_ints[of "example_rows(0 := example_cleaned)" 0 0 5 5]
    by (simp add: example_queries_def example_fields)
  have ex_percent: "high_exposure_percent (example_rows(0 := example_cleaned))
     (most_populated example_queries) (IntV (0 + 5 + 5)) = Inr ''10.00%''"
    by (simp add: high_exposure_percent_def example_queries_def example_fields
        true_divide_10_100 float_times_10 format_10)
  from general ex_pop ex_count ex_percent show ?thesis by (intro conjI)
qed

theorem exposure_figures_witness:
  "getitem example_cleaned industry_key = Inr (IntV 0) \<and>
   getitem example_cleaned railways_key = Inr (IntV 5) \<and>
   getitem example_cleaned road_key = Inr (IntV 5) \<and>
   getitem example_cleaned population_key = Inr (IntV 100) \<and>
   figures_cell (example_rows(0 := example_cleaned)) example_queries =
     Inr \<lparr>most_populated_high_exposure_count = IntV 10,
          most_populated_high_exposure_percent = ''10.00%'',
          least_populated_high_exposure_count = IntV 10,
          least_populated_high_exposure_percent = ''10.00%''\<rparr> \<and>
   read_percent ''10.00%'' = Some (False, 1000) \<and>
   \<bar>real 1000 / 100 - \<bar>real_of_int (0 + 5 + 5) / real_of_int 100 * 100\<bar>\<bar>
     \<le> 1 / 200 + \<bar>real_of_int (0 + 5 + 5) / real_of_int 100 * 100\<bar> / 2 ^ 51"
proof -
  from exposure_figures[of "example_rows(0 := example_cleaned)" example_queries
      0 5 5 100 0 5 5 100]
  have "high_exposure_percent (example_rows(0 := example_cleaned))
     (most_populated example_queries) (IntV (0 + 5 + 5)) = Inr ''10.00%''"
    by (simp add: example_queries_def example_fields)
  with example_figures example_fields read_percent_10 show ?thesis by simp
qed

text \<open>
  Claim C8. The percentage divides by the population of the selected record and nothing
  guards the division. When every record of the dataset has a positive integer
  population, the figures cell does not end in \<^verbatim>\<open>ZeroDivisionError\<close>. A raw row whose
  population reads \<^verbatim>\<open>'n/a'\<close> is cleaned to population 0, is selected as the only
  record of its dataset, and makes the figures cell raise \<^verbatim>\<open>ZeroDivisionError\<close>.
\<close>

theorem division_unguarded:
  "((\<forall>a\<in>set data. \<exists>n>0. getitem (h a) population_key = Inr (IntV n)) \<and>
    query_cell h data = Inr q \<longrightarrow> figures_cell h q \<noteq> Inl ZeroDivisionError) \<and>
   build zero_rows [0] = Inr (zero_rows(0 := zero_cleaned), [0]) \<and>
   query_cell (zero_rows(0 := zero_cleaned)) [0] = Inr example_queries \<and>
   getitem ((zero_rows(0 := zero_cleaned)) (most_populated example_queries)) population_key =
     Inr (IntV 0) \<and>
   figures_cell (zero_rows(0 := zero_cleaned)) example_queries = Inl ZeroDivisionError"
proof -
  have "figures_cell h q \<noteq> Inl ZeroDivisionError"
    if pos: "\<forall>a\<in>set data. \<exists>n>0. getitem (h a) population_key = Inr (IntV n)"
      and q: "query_cell h data = Inr q"
  proof
    assume "figures_cell h q = Inl ZeroDivisionError"
    from figures_cell_zerodiv[OF this] query_cell_in_set[OF q] pos show False by force
  qed
  moreover have "getitem ((zero_rows(0 := zero_cleaned)) (most_populated example_queries))
      population_key = Inr (IntV 0)"
    by (simp add: example_queries_def zero_cleaned_def population_key_def)
  ultimately show ?thesis using zero_build zero_query zero_figures by blast
qed

theorem division_unguarded_witness:
  "(\<exists>n>0. getitem ((example_rows(0 := example_cleaned)) 0) population_key = Inr (IntV n)) \<and>
   query_cell (example_rows(0 := example_cleaned)) [0] = Inr example_queries \<and>
   figures_cell (example_rows(0 := example_cleaned)) example_queries \<noteq> Inl ZeroDivisionError"
proof -
  have "\<exists>n>0. getitem ((example_rows(0 := example_cleaned)) 0) population_key = Inr (IntV n)"
    using example_fields(4) by simp
  with division_unguarded[of "[0]" "example_rows(0 := example_cleaned)" example_queries]
    example_query
  show ?thesis by simp
qed

end
